theory Spec2Isabelle
  imports Complex_Main "HOL-Library.Sublist"
begin

section \<open>PlatformIO task provider (src/tasks.js)\<close>

text \<open>
  A shallow embedding of \<^verbatim>\<open>PIOTasksProvider\<close> and \<^verbatim>\<open>TaskCreator\<close>.
  JavaScript strings are \<open>string\<close>; arrays are lists; \<^verbatim>\<open>undefined\<close> is \<open>None\<close>; an
  exception that is thrown is \<open>Inl\<close> of the error.
  What the module takes from its host (the file system, the INI parser, \<^verbatim>\<open>path.join\<close>,
  the process environment, timers) is a parameter of the model.
\<close>

subsection \<open>Data\<close>

text \<open>An entry of the static catalog \<^verbatim>\<open>PIOTasksProvider.baseTasks\<close>.\<close>

record baseTask =
  name :: string
  args :: "string list"

text \<open>
  The values \<^verbatim>\<open>ini.parse\<close> puts into the object it returns: strings; \<^verbatim>\<open>true\<close> for a key
  without a value; \<^verbatim>\<open>true\<close>, \<^verbatim>\<open>false\<close> and \<^verbatim>\<open>null\<close> for these words; what
  \<^verbatim>\<open>JSON.parse\<close> makes of a quoted value (a number, an array, an object); an array for a
  key written with \<^verbatim>\<open>[]\<close>; an object for a section. An object is the list of its keys
  in the order of \<^verbatim>\<open>Object.keys\<close>, each with its value; its keys are distinct.
\<close>

datatype js_value =
    JNull
  | JBool bool
  | JNum real
  | JStr string
  | JArr "js_value list"
  | JObj "(string \<times> js_value) list"

text \<open>The object \<^verbatim>\<open>projectConf\<close>: the top-level keys, each with its value.\<close>

type_synonym projectConf = "(string \<times> js_value) list"

text \<open>An element of the local array \<^verbatim>\<open>projectData\<close> of \<^verbatim>\<open>getTasks\<close>.\<close>

record projectEnv =
  env :: string
  platform :: js_value

text \<open>The fields of a \<^verbatim>\<open>TaskCreator\<close> instance.\<close>

record TaskCreator =
  priv_name :: string
  priv_args :: "string list"

datatype TaskGroup = Build | Clean | Test

datatype TaskPanelKind = Dedicated

text \<open>
  The \<^verbatim>\<open>vscode.Task\<close> built by \<^verbatim>\<open>TaskCreator.create\<close>: the task definition
  \<^verbatim>\<open>{type, args}\<close>, the display name, the source, the \<^verbatim>\<open>ProcessExecution\<close>
  (process, arguments, environment), the problem matcher, the presentation options and
  the group.
\<close>

record Task =
  definition_type :: string
  definition_args :: "string list"
  task_name :: string
  task_source :: string
  execution_process :: string
  execution_args :: "string list"
  execution_env :: "(string \<times> string) list"
  problemMatcher :: string
  presentation_panel :: "TaskPanelKind option"
  task_group :: "TaskGroup option"

text \<open>
  What is thrown: the error of a failing read or parse, and the \<^verbatim>\<open>TypeError\<close> of reading
  a property of \<^verbatim>\<open>null\<close> or of calling what is not a function.
\<close>

datatype js_error = Error string | TypeError

text \<open>
  The host as the module sees it: \<^verbatim>\<open>IS_WINDOWS\<close>, \<^verbatim>\<open>process.env\<close>, the array
  \<^verbatim>\<open>process.env.PATH.split(path.delimiter)\<close> (of a host whose \<^verbatim>\<open>PATH\<close> is set),
  \<^verbatim>\<open>path.join\<close>, \<^verbatim>\<open>fs.isFileSync\<close>,
  \<^verbatim>\<open>fs.readFile\<close> (its outcome for a path) and \<^verbatim>\<open>ini.parse\<close> (which may throw).
\<close>

record host =
  IS_WINDOWS :: bool
  process_env :: "(string \<times> string) list"
  PATH_split :: "string list"
  path_join :: "string \<Rightarrow> string \<Rightarrow> string"
  isFileSync :: "string \<Rightarrow> bool"
  readFile :: "string \<Rightarrow> js_error + string"
  ini_parse :: "string \<Rightarrow> js_error + projectConf"

subsection \<open>Static members of PIOTasksProvider\<close>

definition AUTO_REFRESH_DELAY :: nat where
  "AUTO_REFRESH_DELAY = 1000"

definition ENV_NAME_PREFIX :: string where
  "ENV_NAME_PREFIX = ''env:''"

definition title :: string where
  "title = ''PlatformIO''"

definition baseTasks :: "baseTask list" where
  "baseTasks =
    [ \<lparr>name = ''Build'', args = [''run'']\<rparr>,
      \<lparr>name = ''Clean'', args = [''run'', ''--target'', ''clean'']\<rparr>,
      \<lparr>name = ''Upload'', args = [''run'', ''--target'', ''upload'']\<rparr>,
      \<lparr>name = ''Upload and Monitor'',
        args = [''run'', ''--target'', ''upload'', ''--target'', ''monitor'']\<rparr>,
      \<lparr>name = ''Upload using Programmer'', args = [''run'', ''--target'', ''program'']\<rparr>,
      \<lparr>name = ''Upload SPIFFS image'', args = [''run'', ''--target'', ''uploadfs'']\<rparr>,
      \<lparr>name = ''Monitor'', args = [''device'', ''monitor'']\<rparr>,
      \<lparr>name = ''Test'', args = [''test'']\<rparr>,
      \<lparr>name = ''Remote'', args = [''remote'', ''run'', ''--target'', ''upload'']\<rparr>,
      \<lparr>name = ''Pre-Debug'', args = [''debug'']\<rparr> ]"

subsection \<open>String and array primitives\<close>

text \<open>\<^verbatim>\<open>s.startsWith(p)\<close>.\<close>

definition startsWith :: "string \<Rightarrow> string \<Rightarrow> bool" where
  "startsWith s p = (take (length p) s = p)"

text \<open>\<^verbatim>\<open>xs.includes(x)\<close> on an array of strings.\<close>

definition array_includes :: "string list \<Rightarrow> string \<Rightarrow> bool" where
  "array_includes xs x = (x \<in> set xs)"

text \<open>
  \<^verbatim>\<open>xs.indexOf(x)\<close>: the first index holding \<open>x\<close>, \<open>None\<close> for the source's \<open>-1\<close>.
\<close>

fun indexOf :: "string list \<Rightarrow> string \<Rightarrow> nat option" where
  "indexOf [] x = None"
| "indexOf (y # ys) x =
     (if y = x then Some 0
      else (case indexOf ys x of None \<Rightarrow> None | Some i \<Rightarrow> Some (Suc i)))"

text \<open>\<^verbatim>\<open>xs[i]\<close>: \<^verbatim>\<open>undefined\<close> out of range.\<close>

definition at_index :: "string list \<Rightarrow> nat \<Rightarrow> string option" where
  "at_index xs i = (if i < length xs then Some (xs ! i) else None)"

text \<open>
  \<^verbatim>\<open>v.platform\<close>: reading the property of \<^verbatim>\<open>null\<close> throws; an object has it when
  \<^verbatim>\<open>platform\<close> is one of its keys; a boolean, a number, a string and an array do not.
\<close>

fun readPlatform :: "js_value \<Rightarrow> js_error + js_value option" where
  "readPlatform JNull = Inl TypeError"
| "readPlatform (JObj props) = Inr (map_of props ''platform'')"
| "readPlatform v = Inr None"

text \<open>What \<^verbatim>\<open>!\<close> and \<^verbatim>\<open>if\<close> take for true.\<close>

fun truthy :: "js_value \<Rightarrow> bool" where
  "truthy JNull = False"
| "truthy (JBool b) = b"
| "truthy (JNum n) = (n \<noteq> 0)"
| "truthy (JStr s) = (s \<noteq> [])"
| "truthy (JArr xs) = True"
| "truthy (JObj props) = True"

text \<open>
  \<^verbatim>\<open>v.startsWith(p)\<close>: only a string has the method; for any other value the call is a
  call of what is not a function, or a read from \<^verbatim>\<open>null\<close>.
\<close>

fun call_startsWith :: "js_value \<Rightarrow> string \<Rightarrow> js_error + bool" where
  "call_startsWith (JStr s) p = Inr (startsWith s p)"
| "call_startsWith v p = Inl TypeError"

text \<open>
  \<^verbatim>\<open>xs.forEach\<close> with a callback that updates what it has built so far and may throw,
  and \<^verbatim>\<open>xs.some\<close> with a predicate that may throw: \<^verbatim>\<open>some\<close> stops at the first element
  the predicate holds for, and an exception ends either loop.
\<close>

fun forEach :: "('a \<Rightarrow> 'b \<Rightarrow> js_error + 'a) \<Rightarrow> 'a \<Rightarrow> 'b list \<Rightarrow> js_error + 'a" where
  "forEach f a [] = Inr a"
| "forEach f a (x # xs) = (case f a x of Inl err \<Rightarrow> Inl err | Inr a' \<Rightarrow> forEach f a' xs)"

fun some :: "('b \<Rightarrow> js_error + bool) \<Rightarrow> 'b list \<Rightarrow> js_error + bool" where
  "some p [] = Inr False"
| "some p (x # xs) =
     (case p x of
        Inl err \<Rightarrow> Inl err
      | Inr b \<Rightarrow> (if b then Inr True else some p xs))"

subsection \<open>taskCompatibleWithPlatform\<close>

definition taskCompatibleWithPlatform :: "baseTask \<Rightarrow> js_value \<Rightarrow> js_error + bool" where
  "taskCompatibleWithPlatform task pf =
     (if array_includes (args task) ''program'' \<and> pf \<noteq> JStr ''atmelavr'' then Inr False
      else if array_includes (args task) ''uploadfs'' then
        (case call_startsWith pf ''espressif'' of
           Inl err \<Rightarrow> Inl err
         | Inr b \<Rightarrow> (if \<not> b then Inr False else Inr True))
      else Inr True)"

subsection \<open>TaskCreator\<close>

definition coreTargetName :: "TaskCreator \<Rightarrow> string option" where
  "coreTargetName tc =
     (if at_index (priv_args tc) 0 \<noteq> Some ''run'' then at_index (priv_args tc) 0
      else (case indexOf (priv_args tc) ''--target'' of
              Some index \<Rightarrow> at_index (priv_args tc) (index + 1)
            | None \<Rightarrow> Some ''build''))"

definition coreEnvName :: "TaskCreator \<Rightarrow> string option" where
  "coreEnvName tc =
     (case indexOf (priv_args tc) ''--environment'' of
        Some index \<Rightarrow> at_index (priv_args tc) (index + 1)
      | None \<Rightarrow> None)"

text \<open>
  The getter \<^verbatim>\<open>name\<close>. The test \<^verbatim>\<open>if (coreEnv)\<close> is false for \<^verbatim>\<open>undefined\<close> and for
  the empty string.
\<close>

definition creator_name :: "TaskCreator \<Rightarrow> string" where
  "creator_name tc =
     (case coreEnvName tc of
        None \<Rightarrow> priv_name tc
      | Some coreEnv \<Rightarrow>
          (if coreEnv \<noteq> [] then priv_name tc @ '' ('' @ coreEnv @ '')'' else priv_name tc))"

definition isBuild :: "TaskCreator \<Rightarrow> bool" where
  "isBuild tc = startsWith (priv_name tc) ''Build''"

definition isClean :: "TaskCreator \<Rightarrow> bool" where
  "isClean tc = startsWith (priv_name tc) ''Clean''"

definition isTest :: "TaskCreator \<Rightarrow> bool" where
  "isTest tc = startsWith (priv_name tc) ''Test''"

text \<open>
  The \<^verbatim>\<open>forEach\<close> over the search path in \<^verbatim>\<open>create\<close>. The \<^verbatim>\<open>return\<close> in its callback
  ends that call of the callback only, so every entry is visited, each with the current
  value of \<^verbatim>\<open>pioCmd\<close>.
\<close>

fun searchPath :: "host \<Rightarrow> string list \<Rightarrow> string \<Rightarrow> string" where
  "searchPath h [] pioCmd = pioCmd"
| "searchPath h (item # items) pioCmd =
     (if isFileSync h (path_join h item pioCmd)
      then searchPath h items (path_join h item pioCmd)
      else searchPath h items pioCmd)"

definition resolvePioCmd :: "host \<Rightarrow> string" where
  "resolvePioCmd h =
     (if IS_WINDOWS h then searchPath h (PATH_split h) ''platformio.exe''
      else ''platformio'')"

definition create :: "host \<Rightarrow> TaskCreator \<Rightarrow> Task" where
  "create h tc =
     \<lparr> definition_type = title,
       definition_args = priv_args tc,
       task_name = creator_name tc,
       task_source = title,
       execution_process = resolvePioCmd h,
       execution_args = priv_args tc,
       execution_env = process_env h,
       problemMatcher = ''$platformio'',
       presentation_panel = Some Dedicated,
       task_group =
         (if isBuild tc then Some Build
          else if isClean tc then Some Clean
          else if isTest tc then Some Test
          else None) \<rparr>"

subsection \<open>getTasks\<close>

text \<open>
  The body of the loop over \<^verbatim>\<open>Object.keys(projectConf)\<close>. The property is read first, so
  a top-level \<^verbatim>\<open>null\<close> throws whatever its key is; \<^verbatim>\<open>!platform\<close> holds for
  \<^verbatim>\<open>undefined\<close> and for every value that is not truthy.
\<close>

definition pushProjectEnv ::
  "projectEnv list \<Rightarrow> string \<times> js_value \<Rightarrow> js_error + projectEnv list" where
  "pushProjectEnv projectData entry =
     (case readPlatform (snd entry) of
        Inl err \<Rightarrow> Inl err
      | Inr None \<Rightarrow> Inr projectData
      | Inr (Some pf) \<Rightarrow>
          (if \<not> truthy pf \<or> \<not> startsWith (fst entry) ENV_NAME_PREFIX then Inr projectData
           else Inr (projectData @
             [\<lparr>env = drop (length ENV_NAME_PREFIX) (fst entry), platform = pf\<rparr>])))"

definition collectProjectData :: "projectConf \<Rightarrow> js_error + projectEnv list" where
  "collectProjectData projectConf = forEach pushProjectEnv [] projectConf"

text \<open>The callback of the first \<^verbatim>\<open>baseTasks.forEach\<close> (base tasks).\<close>

definition pushBaseTask ::
  "host \<Rightarrow> projectEnv list \<Rightarrow> Task list \<Rightarrow> baseTask \<Rightarrow> js_error + Task list" where
  "pushBaseTask h projectData result task =
     (case some (\<lambda>data. taskCompatibleWithPlatform task (platform data)) projectData of
        Inl err \<Rightarrow> Inl err
      | Inr b \<Rightarrow>
          (if b then Inr (result @ [create h \<lparr>priv_name = name task, priv_args = args task\<rparr>])
           else Inr result))"

text \<open>The callbacks of the nested \<^verbatim>\<open>forEach\<close> loops (project environment tasks).\<close>

definition pushEnvTask ::
  "host \<Rightarrow> projectEnv \<Rightarrow> Task list \<Rightarrow> baseTask \<Rightarrow> js_error + Task list" where
  "pushEnvTask h data result task =
     (case taskCompatibleWithPlatform task (platform data) of
        Inl err \<Rightarrow> Inl err
      | Inr b \<Rightarrow>
          (if b
           then Inr (result @
             [create h \<lparr>priv_name = name task,
                        priv_args = args task @ [''--environment'', env data]\<rparr>])
           else Inr result))"

definition pushEnvTasks :: "host \<Rightarrow> Task list \<Rightarrow> projectEnv \<Rightarrow> js_error + Task list" where
  "pushEnvTasks h result data = forEach (pushEnvTask h data) result baseTasks"

text \<open>The three PIO Core tasks pushed last.\<close>

definition coreTasks :: "host \<Rightarrow> Task list" where
  "coreTasks h =
     [ create h \<lparr>priv_name = ''Rebuild IntelliSense Index'',
                 priv_args = [''init'', ''--ide'', ''vscode'']\<rparr>,
       create h \<lparr>priv_name = ''Update installed platforms, packages and libraries'',
                 priv_args = [''update'']\<rparr>,
       create h \<lparr>priv_name = ''Upgrade PlatformIO Core'', priv_args = [''upgrade'']\<rparr> ]"

text \<open>
  \<^verbatim>\<open>getTasks\<close> from the parsed configuration on: everything after the \<^verbatim>\<open>try\<close>. Nothing
  here is caught: \<open>Inl\<close> is the exception \<^verbatim>\<open>getTasks\<close> ends with.
\<close>

definition generate :: "host \<Rightarrow> projectConf \<Rightarrow> js_error + Task list" where
  "generate h projectConf =
     (case collectProjectData projectConf of
        Inl err \<Rightarrow> Inl err
      | Inr projectData \<Rightarrow>
          (case forEach (pushBaseTask h projectData) [] baseTasks of
             Inl err \<Rightarrow> Inl err
           | Inr result \<Rightarrow>
               (case (if length projectData > 1
                      then forEach (pushEnvTasks h) result projectData
                      else Inr result) of
                  Inl err \<Rightarrow> Inl err
                | Inr result \<Rightarrow> Inr (result @ coreTasks h))))"

text \<open>
  The \<^verbatim>\<open>try\<close> block: read the file, then parse it. Either step may throw; \<open>Inl\<close> is the
  exception that reaches the \<^verbatim>\<open>catch\<close>.
\<close>

definition readProjectConf :: "host \<Rightarrow> string \<Rightarrow> js_error + projectConf" where
  "readProjectConf h projectDir =
     (case readFile h (path_join h projectDir ''platformio.ini'') of
        Inl err \<Rightarrow> Inl err
      | Inr content \<Rightarrow> ini_parse h content)"

definition parseErrorMessage :: "string \<Rightarrow> string" where
  "parseErrorMessage projectDir =
     ''Could not parse '' @ [CHR 0x22] @ ''platformio.ini'' @ [CHR 0x22] @ '' file in ''
       @ projectDir"

text \<open>
  \<^verbatim>\<open>getTasks\<close>. The first component of the result is the list the promise resolves to, or
  the exception it rejects with. The third argument and the second component of the result
  are the messages \<^verbatim>\<open>vscode.window.showErrorMessage\<close> has shown, oldest first.
\<close>

definition getTasks ::
  "host \<Rightarrow> string \<Rightarrow> string list \<Rightarrow> (js_error + Task list) \<times> string list" where
  "getTasks h projectDir shown =
     (case readProjectConf h projectDir of
        Inl err \<Rightarrow> (Inr [], shown @ [parseErrorMessage projectDir])
      | Inr projectConf \<Rightarrow> (generate h projectConf, shown))"

subsection \<open>The task list as the specification describes it\<close>

text \<open>
  Step 1 of the specification's algorithm: a section is an environment when its name
  starts with the prefix and it declares a non-empty platform.
\<close>

fun declaredPlatform :: "js_value \<Rightarrow> js_value option" where
  "declaredPlatform (JObj props) = map_of props ''platform''"
| "declaredPlatform v = None"

definition spec_environment :: "string \<times> js_value \<Rightarrow> projectEnv option" where
  "spec_environment entry =
     (case declaredPlatform (snd entry) of
        None \<Rightarrow> None
      | Some pf \<Rightarrow>
          (if prefix ENV_NAME_PREFIX (fst entry) \<and> truthy pf
           then Some \<lparr>env = drop (length ENV_NAME_PREFIX) (fst entry), platform = pf\<rparr>
           else None))"

definition spec_environments :: "projectConf \<Rightarrow> projectEnv list" where
  "spec_environments conf = List.map_filter spec_environment conf"

text \<open>Step 2: the two exclusion rules, on platform identifiers, which are strings.\<close>

fun isString :: "js_value \<Rightarrow> bool" where
  "isString (JStr s) = True"
| "isString v = False"

definition spec_compatible :: "baseTask \<Rightarrow> js_value \<Rightarrow> bool" where
  "spec_compatible t pf =
     ((''program'' \<in> set (args t) \<longrightarrow> pf = JStr ''atmelavr'') \<and>
      (''uploadfs'' \<in> set (args t) \<longrightarrow>
         (case pf of JStr s \<Rightarrow> prefix ''espressif'' s | _ \<Rightarrow> False)))"

text \<open>
  The configurations of the specification's data model, as far as \<^verbatim>\<open>getTasks\<close> looks: no
  top-level value is \<^verbatim>\<open>null\<close>, and the platform of every environment is a string.
\<close>

definition wellTyped :: "projectConf \<Rightarrow> bool" where
  "wellTyped conf \<longleftrightarrow>
     (\<forall>entry \<in> set conf. snd entry \<noteq> JNull) \<and>
     (\<forall>d \<in> set (spec_environments conf). isString (platform d))"

text \<open>The unqualified and the environment-qualified descriptor of a template.\<close>

definition baseTaskOf :: "host \<Rightarrow> baseTask \<Rightarrow> Task" where
  "baseTaskOf h t = create h \<lparr>priv_name = name t, priv_args = args t\<rparr>"

definition envTaskOf :: "host \<Rightarrow> string \<Rightarrow> baseTask \<Rightarrow> Task" where
  "envTaskOf h e t =
     create h \<lparr>priv_name = name t, priv_args = args t @ [''--environment'', e]\<rparr>"

text \<open>Steps 3 to 6: base tasks, per-environment tasks, fixed utility tasks, in this order.\<close>

definition spec_base :: "host \<Rightarrow> projectEnv list \<Rightarrow> Task list" where
  "spec_base h envs =
     map (baseTaskOf h)
       (filter (\<lambda>t. \<exists>d \<in> set envs. spec_compatible t (platform d)) baseTasks)"

definition spec_qualified :: "host \<Rightarrow> projectEnv list \<Rightarrow> Task list" where
  "spec_qualified h envs =
     (if length envs > 1
      then concat (map (\<lambda>d. map (envTaskOf h (env d))
                              (filter (\<lambda>t. spec_compatible t (platform d)) baseTasks)) envs)
      else [])"

definition spec_generate :: "host \<Rightarrow> projectConf \<Rightarrow> Task list" where
  "spec_generate h conf =
     spec_base h (spec_environments conf) @ spec_qualified h (spec_environments conf)
       @ coreTasks h"

subsection \<open>Refresh lifecycle\<close>

text \<open>
  What the provider registers with the editor and keeps in \<^verbatim>\<open>this.subscriptions\<close>: the task
  provider, the file-system watcher and the watcher's three event handlers.
\<close>

datatype subscription = TaskProvider | FileSystemWatcher | OnDidCreate | OnDidChange | OnDidDelete

text \<open>
  The provider's fields \<open>subscriptions\<close> and \<open>refreshTimeout\<close>, together with the part of
  the editor and of the JavaScript runtime they refer to: the disposables that are
  registered and not yet disposed, the pending timeouts (handle and due time, in
  milliseconds), the next timer handle, the clock, and whether
  \<^verbatim>\<open>createFileSystemWatcher\<close> throws. \<open>refreshCount\<close> counts the runs of \<^verbatim>\<open>refresh\<close>.
\<close>

record provider =
  subscriptions :: "subscription list"
  refreshTimeout :: "nat option"
  registered :: "subscription list"
  timers :: "(nat \<times> nat) list"
  nextTimer :: nat
  clock :: nat
  watcherFails :: bool
  refreshCount :: nat

text \<open>Registering a disposable with the editor and pushing it onto \<open>subscriptions\<close>.\<close>

definition subscribe :: "subscription \<Rightarrow> provider \<Rightarrow> provider" where
  "subscribe s p = p\<lparr>registered := registered p @ [s], subscriptions := subscriptions p @ [s]\<rparr>"

definition dispose :: "provider \<Rightarrow> provider" where
  "dispose p =
     p\<lparr>registered := foldl (\<lambda>r s. remove1 s r) (registered p) (subscriptions p),
       subscriptions := []\<rparr>"

definition clearTimeout :: "nat \<Rightarrow> provider \<Rightarrow> provider" where
  "clearTimeout handle p = p\<lparr>timers := filter (\<lambda>t. fst t \<noteq> handle) (timers p)\<rparr>"

definition setTimeout :: "nat \<Rightarrow> provider \<Rightarrow> nat \<times> provider" where
  "setTimeout delay p =
     (nextTimer p,
      p\<lparr>timers := timers p @ [(nextTimer p, clock p + delay)],
        nextTimer := Suc (nextTimer p)\<rparr>)"

definition requestRefresh :: "provider \<Rightarrow> provider" where
  "requestRefresh p =
     (let p1 = (case refreshTimeout p of Some handle \<Rightarrow> clearTimeout handle p | None \<Rightarrow> p);
          (handle, p2) = setTimeout AUTO_REFRESH_DELAY p1
      in p2\<lparr>refreshTimeout := Some handle\<rparr>)"

definition addProjectConfigWatcher :: "provider \<Rightarrow> provider" where
  "addProjectConfigWatcher p =
     (if watcherFails p then p
      else subscribe OnDidDelete (subscribe OnDidChange (subscribe OnDidCreate
             (subscribe FileSystemWatcher p))))"

definition refresh :: "provider \<Rightarrow> provider" where
  "refresh p =
     (let p1 = addProjectConfigWatcher (subscribe TaskProvider (dispose p))
      in p1\<lparr>refreshCount := Suc (refreshCount p1)\<rparr>)"

text \<open>
  The constructor, at time \<open>now\<close>: it sets the fields and calls \<^verbatim>\<open>requestRefresh\<close>, the
  trigger of the initial load. (\<^verbatim>\<open>removeStaticTasks\<close> only deletes a legacy file and is left
  out.) \<open>initialFields\<close> is the provider just before that call.
\<close>

definition initialFields :: "bool \<Rightarrow> nat \<Rightarrow> provider" where
  "initialFields fails now =
     \<lparr> subscriptions = [], refreshTimeout = None, registered = [], timers = [],
       nextTimer = 1, clock = now, watcherFails = fails, refreshCount = 0 \<rparr>"

definition newProvider :: "bool \<Rightarrow> nat \<Rightarrow> provider" where
  "newProvider fails now = requestRefresh (initialFields fails now)"

text \<open>
  Time passing: the clock advances by \<open>d\<close> milliseconds and every timeout that is due runs
  its callback, which is \<^verbatim>\<open>refresh\<close> for every timeout this module sets.
\<close>

definition elapse :: "nat \<Rightarrow> provider \<Rightarrow> provider" where
  "elapse d p =
     (let now = clock p + d;
          due = filter (\<lambda>t. snd t \<le> now) (timers p);
          p1 = p\<lparr>clock := now, timers := filter (\<lambda>t. \<not> snd t \<le> now) (timers p)\<rparr>
      in foldl (\<lambda>q t. refresh q) p1 due)"

text \<open>
  What can happen to a provider. A watcher event reaches its handler only while the
  handler is registered.
\<close>

datatype event = ConfigCreated | ConfigChanged | ConfigDeleted | Elapse nat

fun step :: "event \<Rightarrow> provider \<Rightarrow> provider" where
  "step ConfigCreated p = (if OnDidCreate \<in> set (registered p) then requestRefresh p else p)"
| "step ConfigChanged p = (if OnDidChange \<in> set (registered p) then requestRefresh p else p)"
| "step ConfigDeleted p = (if OnDidDelete \<in> set (registered p) then dispose p else p)"
| "step (Elapse d) p = elapse d p"

fun run :: "event list \<Rightarrow> provider \<Rightarrow> provider" where
  "run [] p = p"
| "run (e # es) p = run es (step e p)"

text \<open>
  A burst of refresh triggers: one call of \<^verbatim>\<open>requestRefresh\<close>, then one more after each
  of the given gaps. The constructor and the handlers of \<^verbatim>\<open>onDidCreate\<close> and
  \<^verbatim>\<open>onDidChange\<close> each do nothing but call \<^verbatim>\<open>requestRefresh\<close>.
\<close>

fun burst :: "nat list \<Rightarrow> provider \<Rightarrow> provider" where
  "burst [] p = requestRefresh p"
| "burst (gap # gaps) p = burst gaps (elapse gap (requestRefresh p))"

text \<open>
  What holds of every provider the constructor and the events can produce: the provider
  holds exactly what is registered, and a pending timeout is the one whose handle
  \<open>refreshTimeout\<close> keeps.
\<close>

definition consistent :: "provider \<Rightarrow> bool" where
  "consistent p \<longleftrightarrow>
     registered p = subscriptions p \<and>
     (\<forall>t \<in> set (timers p). refreshTimeout p = Some (fst t))"

subsection \<open>Example hosts and configurations\<close>

definition exampleHost :: "string \<Rightarrow> projectConf \<Rightarrow> host" where
  "exampleHost content conf =
     \<lparr> IS_WINDOWS = False,
       process_env = [(''PATH'', ''/usr/bin'')],
       PATH_split = [''/usr/bin''],
       path_join = (\<lambda>dir file. dir @ ''/'' @ file),
       isFileSync = (\<lambda>p. False),
       readFile = (\<lambda>p. if p = ''/project/platformio.ini'' then Inr content
                        else Inl (Error ''ENOENT'')),
       ini_parse = (\<lambda>c. if c = content then Inr conf else Inl (Error ''unexpected'')) \<rparr>"

text \<open>The example of the specification: \<^verbatim>\<open>[env:uno]\<close> on atmelavr, \<^verbatim>\<open>[env:esp]\<close> on espressif32.\<close>

definition twoEnvConf :: projectConf where
  "twoEnvConf =
     [ (''env:uno'', JObj [(''platform'', JStr ''atmelavr'')]),
       (''env:esp'', JObj [(''platform'', JStr ''espressif32'')]) ]"

definition twoEnvHost :: host where
  "twoEnvHost =
     exampleHost ''[env:uno] platform=atmelavr [env:esp] platform=espressif32'' twoEnvConf"

definition oneEnvConf :: projectConf where
  "oneEnvConf =
     [ (''platformio'', JObj [(''src_dir'', JStr ''src'')]),
       (''env:uno'', JObj [(''platform'', JStr ''atmelavr''), (''board'', JStr ''uno'')]) ]"

definition oneEnvHost :: host where
  "oneEnvHost =
     exampleHost ''[platformio] src_dir=src [env:uno] platform=atmelavr board=uno'' oneEnvConf"

text \<open>
  No section here is an environment: one has no platform, one has an empty platform, one
  has the platform \<^verbatim>\<open>false\<close>, one has a platform but not the prefix; a top-level key with a
  string value is none either.
\<close>

definition noEnvConf :: projectConf where
  "noEnvConf =
     [ (''description'', JStr ''demo''),
       (''env:noplatform'', JObj [(''board'', JStr ''uno'')]),
       (''env:empty'', JObj [(''platform'', JStr [])]),
       (''env:off'', JObj [(''platform'', JBool False)]),
       (''common'', JObj [(''platform'', JStr ''atmelavr'')]) ]"

definition noEnvHost :: host where
  "noEnvHost =
     exampleHost
       ''description=demo [env:noplatform] board=uno [env:empty] platform= [env:off] platform=false [common] platform=atmelavr''
       noEnvConf"

text \<open>A section named exactly \<^verbatim>\<open>env:\<close> declares the environment with the empty name.\<close>

definition emptyNameConf :: projectConf where
  "emptyNameConf =
     [ (''env:'', JObj [(''platform'', JStr ''atmelavr'')]),
       (''env:b'', JObj [(''platform'', JStr ''atmelavr'')]) ]"

definition emptyNameHost :: host where
  "emptyNameHost =
     exampleHost ''[env:] platform=atmelavr [env:b] platform=atmelavr'' emptyNameConf"

text \<open>
  Configurations with values that are not strings: the top-level line \<^verbatim>\<open>foo = null\<close>; a
  section \<^verbatim>\<open>[env:x]\<close> with the bare line \<^verbatim>\<open>platform\<close>, which parses to \<^verbatim>\<open>true\<close>; the
  same beside an environment on atmelavr; and an environment whose platform is the quoted
  number 8266 beside one on espressif32.
\<close>

definition nullValueConf :: projectConf where
  "nullValueConf = [ (''foo'', JNull) ]"

definition nullValueHost :: host where
  "nullValueHost = exampleHost ''foo = null'' nullValueConf"

definition barePlatformConf :: projectConf where
  "barePlatformConf = [ (''env:x'', JObj [(''platform'', JBool True)]) ]"

definition barePlatformHost :: host where
  "barePlatformHost = exampleHost ''[env:x] platform'' barePlatformConf"

definition bareSecondConf :: projectConf where
  "bareSecondConf =
     [ (''env:a'', JObj [(''platform'', JStr ''atmelavr'')]),
       (''env:b'', JObj [(''platform'', JBool True)]) ]"

definition bareSecondHost :: host where
  "bareSecondHost = exampleHost ''[env:a] platform=atmelavr [env:b] platform'' bareSecondConf"

definition numberPlatformConf :: projectConf where
  "numberPlatformConf =
     [ (''env:esp'', JObj [(''platform'', JStr ''espressif32'')]),
       (''env:n'', JObj [(''platform'', JNum 8266)]) ]"

definition numberPlatformHost :: host where
  "numberPlatformHost =
     exampleHost
       (''[env:esp] platform=espressif32 [env:n] platform='' @ [CHR 0x27] @ ''8266'' @ [CHR 0x27])
       numberPlatformConf"

text \<open>A host whose file cannot be read, and one whose parser throws.\<close>

definition unreadableHost :: host where
  "unreadableHost = (exampleHost [] [])\<lparr>readFile := (\<lambda>p. Inl (Error ''ENOENT''))\<rparr>"

definition unparseableHost :: host where
  "unparseableHost = (exampleHost ''[env:uno'' [])\<lparr>ini_parse := (\<lambda>c. Inl (Error ''syntax''))\<rparr>"

text \<open>
  A Windows host with the relative search path \<^verbatim>\<open>bin;tools\<close>, where the files
  \<^verbatim>\<open>platformio.exe\<close> in \<^verbatim>\<open>bin\<close> and in \<^verbatim>\<open>tools/bin\<close> both exist. The separator
  of its \<^verbatim>\<open>path.join\<close> is the backslash.
\<close>

definition sep :: string where
  "sep = [CHR 0x5C]"

definition windowsHost :: host where
  "windowsHost =
     \<lparr> IS_WINDOWS = True,
       process_env = [(''PATH'', ''bin;tools'')],
       PATH_split = [''bin'', ''tools''],
       path_join = (\<lambda>dir file. dir @ sep @ file),
       isFileSync = (\<lambda>p. p = ''bin'' @ sep @ ''platformio.exe'' \<or>
                          p = ''tools'' @ sep @ ''bin'' @ sep @ ''platformio.exe''),
       readFile = (\<lambda>p. Inl (Error ''ENOENT'')),
       ini_parse = (\<lambda>c. Inr []) \<rparr>"

definition programTask :: baseTask where
  "programTask =
     \<lparr>name = ''Upload using Programmer'', args = [''run'', ''--target'', ''program'']\<rparr>"

definition uploadfsTask :: baseTask where
  "uploadfsTask =
     \<lparr>name = ''Upload SPIFFS image'', args = [''run'', ''--target'', ''uploadfs'']\<rparr>"

definition buildTask :: baseTask where
  "buildTask = \<lparr>name = ''Build'', args = [''run'']\<rparr>"

section \<open>Properties\<close>

subsection \<open>Platform filter\<close>

lemma startsWith_prefix: "startsWith s p = prefix p s"
  unfolding startsWith_def prefix_def
  by (metis append_eq_conv_conj append_take_drop_id)

lemma isString_iff: "isString v \<longleftrightarrow> (\<exists>s. v = JStr s)"
  by (cases v) simp_all

lemma call_startsWith_not_string: "\<not> isString v \<Longrightarrow> call_startsWith v p = Inl TypeError"
  by (cases v) simp_all

lemma compatible_string:
  "taskCompatibleWithPlatform t (JStr s) = Inr (spec_compatible t (JStr s))"
  by (simp add: taskCompatibleWithPlatform_def spec_compatible_def array_includes_def
      startsWith_prefix)

lemma compatible_iff_spec:
  "isString pf \<Longrightarrow> taskCompatibleWithPlatform t pf = Inr (spec_compatible t pf)"
  by (auto simp: isString_iff compatible_string)

lemma compatible_no_target:
  "''program'' \<notin> set (args t) \<Longrightarrow> ''uploadfs'' \<notin> set (args t) \<Longrightarrow>
     taskCompatibleWithPlatform t pf = Inr True"
  by (simp add: taskCompatibleWithPlatform_def array_includes_def)

lemma compatible_uploadfs_throws:
  "''program'' \<notin> set (args t) \<Longrightarrow> ''uploadfs'' \<in> set (args t) \<Longrightarrow> \<not> isString pf \<Longrightarrow>
     taskCompatibleWithPlatform t pf = Inl TypeError"
  by (simp add: taskCompatibleWithPlatform_def array_includes_def call_startsWith_not_string)

subsection \<open>The loops of getTasks as list operations\<close>

lemma readPlatform_declared:
  "v \<noteq> JNull \<Longrightarrow> readPlatform v = Inr (declaredPlatform v)"
  by (cases v) simp_all

lemma pushProjectEnv_spec:
  "snd entry \<noteq> JNull \<Longrightarrow>
     pushProjectEnv acc entry =
       Inr (acc @ (case spec_environment entry of None \<Rightarrow> [] | Some d \<Rightarrow> [d]))"
  by (simp add: pushProjectEnv_def spec_environment_def startsWith_prefix readPlatform_declared
      split: option.splits)

lemma pushProjectEnv_null: "snd entry = JNull \<Longrightarrow> pushProjectEnv acc entry = Inl TypeError"
  by (simp add: pushProjectEnv_def)

lemma collect_forEach:
  "\<forall>entry \<in> set conf. snd entry \<noteq> JNull \<Longrightarrow>
     forEach pushProjectEnv acc conf = Inr (acc @ List.map_filter spec_environment conf)"
proof (induction conf arbitrary: acc)
  case Nil
  show ?case by simp
next
  case (Cons entry conf)
  from Cons.prems have e: "snd entry \<noteq> JNull" and rest: "\<forall>entry \<in> set conf. snd entry \<noteq> JNull"
    by simp_all
  show ?case
    by (simp add: pushProjectEnv_spec [OF e] Cons.IH [OF rest] split: option.splits)
qed

lemma collect_null:
  "\<exists>entry \<in> set conf. snd entry = JNull \<Longrightarrow> forEach pushProjectEnv acc conf = Inl TypeError"
proof (induction conf arbitrary: acc)
  case Nil
  then show ?case by simp
next
  case (Cons entry conf)
  show ?case
  proof (cases "snd entry = JNull")
    case True
    then show ?thesis by (simp add: pushProjectEnv_null)
  next
    case False
    with Cons.prems have "\<exists>entry \<in> set conf. snd entry = JNull" by auto
    with False show ?thesis
      by (simp add: pushProjectEnv_spec Cons.IH)
  qed
qed

lemma collectProjectData_spec:
  "\<forall>entry \<in> set conf. snd entry \<noteq> JNull \<Longrightarrow>
     collectProjectData conf = Inr (spec_environments conf)"
  by (simp add: collectProjectData_def spec_environments_def collect_forEach)

lemma collectProjectData_null:
  "\<exists>entry \<in> set conf. snd entry = JNull \<Longrightarrow> collectProjectData conf = Inl TypeError"
  by (simp add: collectProjectData_def collect_null)

lemma collectProjectData_Inr:
  "collectProjectData conf = Inr pd \<longleftrightarrow>
     (\<forall>entry \<in> set conf. snd entry \<noteq> JNull) \<and> pd = spec_environments conf"
proof (cases "\<forall>entry \<in> set conf. snd entry \<noteq> JNull")
  case True
  then show ?thesis by (auto simp: collectProjectData_spec)
next
  case False
  then have "collectProjectData conf = Inl TypeError"
    by (intro collectProjectData_null) auto
  with False show ?thesis by simp
qed

lemma some_strings:
  "\<forall>d \<in> set pd. isString (platform d) \<Longrightarrow>
     some (\<lambda>data. taskCompatibleWithPlatform t (platform data)) pd =
       Inr (\<exists>d \<in> set pd. spec_compatible t (platform d))"
  by (induction pd) (auto simp: compatible_iff_spec)

lemma base_forEach:
  assumes "\<forall>d \<in> set pd. isString (platform d)"
  shows "forEach (pushBaseTask h pd) acc ts =
     Inr (acc @ map (baseTaskOf h)
       (filter (\<lambda>t. \<exists>d \<in> set pd. spec_compatible t (platform d)) ts))"
  by (induction ts arbitrary: acc)
     (simp_all add: pushBaseTask_def baseTaskOf_def some_strings [OF assms])

lemma env_forEach:
  assumes "isString (platform d)"
  shows "forEach (pushEnvTask h d) acc ts =
     Inr (acc @ map (envTaskOf h (env d)) (filter (\<lambda>t. spec_compatible t (platform d)) ts))"
  by (induction ts arbitrary: acc)
     (simp_all add: pushEnvTask_def envTaskOf_def compatible_iff_spec [OF assms])

lemma envs_forEach:
  "\<forall>d \<in> set pd. isString (platform d) \<Longrightarrow>
   forEach (pushEnvTasks h) acc pd =
     Inr (acc @ concat (map (\<lambda>d. map (envTaskOf h (env d))
                          (filter (\<lambda>t. spec_compatible t (platform d)) baseTasks)) pd))"
  by (induction pd arbitrary: acc) (simp_all add: pushEnvTasks_def env_forEach)

lemma generate_spec: "wellTyped conf \<Longrightarrow> generate h conf = Inr (spec_generate h conf)"
  by (simp add: wellTyped_def generate_def spec_generate_def base_forEach envs_forEach
      collectProjectData_spec spec_base_def spec_qualified_def)

lemma forEach_throws:
  "x \<in> set xs \<Longrightarrow> (\<And>a. isl (f a x)) \<Longrightarrow> isl (forEach f a xs)"
proof (induction xs arbitrary: a)
  case Nil
  then show ?case by simp
next
  case (Cons y xs)
  show ?case
  proof (cases "f a y")
    case (Inl err)
    then show ?thesis by simp
  next
    case (Inr a')
    with Cons.prems(2) [of a] have "x \<noteq> y" by auto
    with Cons.prems(1) have "x \<in> set xs" by simp
    with Cons.IH [of a'] Cons.prems(2) Inr show ?thesis by simp
  qed
qed

lemma uploadfs_template:
  "\<lparr>name = ''Upload SPIFFS image'', args = [''run'', ''--target'', ''uploadfs'']\<rparr> \<in> set baseTasks"
  by (simp add: baseTasks_def)

lemma pushEnvTasks_throws:
  assumes "\<not> isString (platform d)"
  shows "isl (pushEnvTasks h a d)"
  unfolding pushEnvTasks_def
proof (rule forEach_throws [OF uploadfs_template])
  fix r
  show "isl (pushEnvTask h d r
      \<lparr>name = ''Upload SPIFFS image'', args = [''run'', ''--target'', ''uploadfs'']\<rparr>)"
    using assms by (simp add: pushEnvTask_def compatible_uploadfs_throws)
qed

lemma pushBaseTask_throws:
  assumes "\<not> isString (platform d)"
  shows "isl (forEach (pushBaseTask h [d]) a baseTasks)"
proof (rule forEach_throws [OF uploadfs_template])
  fix r
  show "isl (pushBaseTask h [d] r
      \<lparr>name = ''Upload SPIFFS image'', args = [''run'', ''--target'', ''uploadfs'']\<rparr>)"
    using assms by (simp add: pushBaseTask_def compatible_uploadfs_throws)
qed

lemma generate_throws:
  assumes "\<not> wellTyped conf"
  shows "isl (generate h conf)"
proof (cases "\<forall>entry \<in> set conf. snd entry \<noteq> JNull")
  case False
  then have "collectProjectData conf = Inl TypeError"
    by (intro collectProjectData_null) auto
  then show ?thesis by (simp add: generate_def)
next
  case True
  then have pd: "collectProjectData conf = Inr (spec_environments conf)"
    by (rule collectProjectData_spec)
  from True assms obtain d where d: "d \<in> set (spec_environments conf)" "\<not> isString (platform d)"
    by (auto simp: wellTyped_def)
  show ?thesis
  proof (cases "length (spec_environments conf) > 1")
    case long: True
    have "isl (forEach (pushEnvTasks h) r (spec_environments conf))" for r
      by (rule forEach_throws [OF d(1)]) (rule pushEnvTasks_throws [OF d(2)])
    then have "forEach (pushEnvTasks h) r (spec_environments conf) \<noteq> Inr out" for r out
      by (metis sum.disc(2))
    with long show ?thesis
      by (auto simp: generate_def pd split: sum.splits)
  next
    case short: False
    with d(1) have "spec_environments conf = [d]"
      by (cases "spec_environments conf") auto
    moreover have "forEach (pushBaseTask h [d]) [] baseTasks \<noteq> Inr out" for out
      using pushBaseTask_throws [OF d(2), of h "[]"] by (metis sum.disc(2))
    ultimately show ?thesis
      by (auto simp: generate_def pd split: sum.splits)
  qed
qed

lemma generate_Inr:
  "generate h conf = Inr out \<longleftrightarrow> wellTyped conf \<and> out = spec_generate h conf"
  using generate_spec [of conf h] generate_throws [of conf h]
  by (cases "wellTyped conf") auto

lemma catalog_no_environment: "t \<in> set baseTasks \<Longrightarrow> ''--environment'' \<notin> set (args t)"
  by (auto simp: baseTasks_def)

lemma catalog_distinct: "distinct baseTasks"
  by (simp add: baseTasks_def)

lemma catalog_args_inj: "inj_on args (set baseTasks)"
  by (simp add: baseTasks_def)

lemma catalog_names_inj: "inj_on name (set baseTasks)"
  by (simp add: baseTasks_def)


subsection \<open>Telling descriptors apart\<close>

lemma definition_args_create [simp]: "definition_args (create h tc) = priv_args tc"
  by (simp add: create_def)

lemma task_name_create [simp]: "task_name (create h tc) = creator_name tc"
  by (simp add: create_def)

lemma definition_args_baseTaskOf [simp]: "definition_args (baseTaskOf h t) = args t"
  by (simp add: baseTaskOf_def)

lemma definition_args_envTaskOf [simp]:
  "definition_args (envTaskOf h e t) = args t @ [''--environment'', e]"
  by (simp add: envTaskOf_def)

lemma catalog_not_core:
  "t \<in> set baseTasks \<Longrightarrow> args t \<notin> definition_args ` set (coreTasks h)"
  by (auto simp: baseTasks_def coreTasks_def)

lemma core_no_environment:
  "x \<in> set (coreTasks h) \<Longrightarrow> ''--environment'' \<notin> set (definition_args x)"
  by (auto simp: coreTasks_def)

lemma base_no_environment:
  "x \<in> set (spec_base h envs) \<Longrightarrow> ''--environment'' \<notin> set (definition_args x)"
  by (auto simp: spec_base_def dest: catalog_no_environment)

lemma envTaskOf_not_base: "envTaskOf h e t \<notin> set (spec_base h envs)"
  using base_no_environment [of "envTaskOf h e t" h envs] by auto

lemma envTaskOf_not_core: "envTaskOf h e t \<notin> set (coreTasks h)"
  using core_no_environment [of "envTaskOf h e t" h] by auto

lemma baseTaskOf_not_core: "t \<in> set baseTasks \<Longrightarrow> baseTaskOf h t \<notin> set (coreTasks h)"
  using catalog_not_core [of t h] by (metis definition_args_baseTaskOf imageI)

lemma baseTaskOf_inj: "inj_on (baseTaskOf h) (set baseTasks)"
proof (rule inj_onI)
  fix t t' assume "t \<in> set baseTasks" "t' \<in> set baseTasks" "baseTaskOf h t = baseTaskOf h t'"
  then have "args t = args t'"
    by (metis definition_args_baseTaskOf)
  with \<open>t \<in> set baseTasks\<close> \<open>t' \<in> set baseTasks\<close> show "t = t'"
    using catalog_args_inj by (auto dest: inj_onD)
qed

lemma envTaskOf_inj: "inj_on (envTaskOf h e) (set baseTasks)"
proof (rule inj_onI)
  fix t t' assume "t \<in> set baseTasks" "t' \<in> set baseTasks" "envTaskOf h e t = envTaskOf h e t'"
  then have "args t @ [''--environment'', e] = args t' @ [''--environment'', e]"
    by (metis definition_args_envTaskOf)
  then have "args t = args t'" by simp
  with \<open>t \<in> set baseTasks\<close> \<open>t' \<in> set baseTasks\<close> show "t = t'"
    using catalog_args_inj by (auto dest: inj_onD)
qed

lemma envTaskOf_env_neq: "e \<noteq> e' \<Longrightarrow> envTaskOf h e t \<noteq> envTaskOf h e' t'"
  by (metis definition_args_envTaskOf last_snoc append_Cons append_Nil append_assoc)

lemma count_list_distinct: "distinct xs \<Longrightarrow> count_list xs x = (if x \<in> set xs then 1 else 0)"
  by (induction xs) auto

lemma count_filter_catalog:
  "t \<in> set baseTasks \<Longrightarrow> count_list (filter P baseTasks) t = (if P t then 1 else 0)"
  by (simp add: count_list_distinct catalog_distinct)

lemma count_map_inj:
  "inj_on f A \<Longrightarrow> set xs \<subseteq> A \<Longrightarrow> x \<in> A \<Longrightarrow> count_list (map f xs) (f x) = count_list xs x"
  by (induction xs) (auto dest: inj_onD)

lemma base_count:
  "t \<in> set baseTasks \<Longrightarrow>
   count_list (spec_base h envs) (baseTaskOf h t) =
     (if \<exists>d \<in> set envs. spec_compatible t (platform d) then 1 else 0)"
  unfolding spec_base_def
  by (subst count_map_inj [OF baseTaskOf_inj]) (auto simp: count_filter_catalog)

lemma env_block_count:
  assumes "t \<in> set baseTasks"
  shows "count_list (map (envTaskOf h e') (filter P baseTasks)) (envTaskOf h e t) =
           (if e' = e \<and> P t then 1 else 0)"
proof (cases "e' = e")
  case True
  have "count_list (map (envTaskOf h e) (filter P baseTasks)) (envTaskOf h e t) =
          count_list (filter P baseTasks) t"
    by (rule count_map_inj [OF envTaskOf_inj]) (use assms in auto)
  with True assms show ?thesis by (simp add: count_filter_catalog)
next
  case False
  then have "envTaskOf h e t \<notin> set (map (envTaskOf h e') (filter P baseTasks))"
    using envTaskOf_env_neq [of e e' h t] by auto
  with False show ?thesis by simp
qed

lemma env_blocks_count:
  assumes "t \<in> set baseTasks"
  shows "count_list
           (concat (map (\<lambda>d. map (envTaskOf h (env d))
                               (filter (\<lambda>t. spec_compatible t (platform d)) baseTasks)) pd))
           (envTaskOf h e t) =
         length (filter (\<lambda>d. env d = e \<and> spec_compatible t (platform d)) pd)"
  by (induction pd) (simp_all add: env_block_count [OF assms])

lemma filter_env_distinct:
  "distinct (map env pd) \<Longrightarrow> d \<in> set pd \<Longrightarrow> filter (\<lambda>d'. env d' = env d \<and> P d') pd = (if P d then [d] else [])"
proof (induction pd)
  case Nil then show ?case by simp
next
  case (Cons a pd)
  show ?case
  proof (cases "a = d")
    case True
    with Cons.prems have "env d \<notin> env ` set pd" by simp
    then have "\<forall>d' \<in> set pd. env d' \<noteq> env d" by (metis imageI)
    then have "filter (\<lambda>d'. env d' = env d \<and> P d') pd = []" by (auto simp: filter_empty_conv)
    with True show ?thesis by simp
  next
    case False
    with Cons.prems have "d \<in> set pd" "env a \<noteq> env d" "distinct (map env pd)" by auto
    with Cons.IH show ?thesis by simp
  qed
qed

lemma spec_environment_Some:
  "spec_environment entry = Some d \<Longrightarrow>
     prefix ENV_NAME_PREFIX (fst entry) \<and> env d = drop (length ENV_NAME_PREFIX) (fst entry)
     \<and> declaredPlatform (snd entry) = Some (platform d) \<and> truthy (platform d)"
  by (auto simp: spec_environment_def split: option.splits if_splits)

lemma spec_environments_origin:
  "d \<in> set (spec_environments conf) \<Longrightarrow>
     \<exists>entry \<in> set conf. spec_environment entry = Some d"
  by (induction conf) (auto simp: spec_environments_def split: option.splits)

lemma prefix_drop_inj:
  "prefix p s \<Longrightarrow> prefix p s' \<Longrightarrow> drop (length p) s = drop (length p) s' \<Longrightarrow> s = s'"
  by (auto simp: prefix_def)

lemma distinct_envs:
  "distinct (map fst conf) \<Longrightarrow> distinct (map env (spec_environments conf))"
proof (induction conf)
  case Nil
  show ?case by (simp add: spec_environments_def)
next
  case (Cons a conf)
  then have IH: "distinct (map env (spec_environments conf))" by simp
  show ?case
  proof (cases "spec_environment a")
    case None
    with IH show ?thesis by (simp add: spec_environments_def)
  next
    case (Some d)
    have "env d \<notin> env ` set (spec_environments conf)"
    proof
      assume "env d \<in> env ` set (spec_environments conf)"
      then obtain d' where d': "d' \<in> set (spec_environments conf)" "env d' = env d" by auto
      then obtain entry where entry: "entry \<in> set conf" "spec_environment entry = Some d'"
        using spec_environments_origin by blast
      from spec_environment_Some [OF Some] spec_environment_Some [OF entry(2)] d'(2)
      have "fst a = fst entry" by (auto intro: prefix_drop_inj)
      with entry(1) Cons.prems show False by force
    qed
    with IH Some show ?thesis by (simp add: spec_environments_def)
  qed
qed

subsection \<open>What getTasks returns\<close>

lemma getTasks_parsed:
  "readProjectConf h projectDir = Inr conf \<Longrightarrow>
     getTasks h projectDir shown = (generate h conf, shown)"
  by (simp add: getTasks_def)

lemma getTasks_failed:
  "readProjectConf h projectDir = Inl err \<Longrightarrow>
     getTasks h projectDir shown = (Inr [], shown @ [parseErrorMessage projectDir])"
  by (simp add: getTasks_def)

lemma getTasks_wellTyped:
  "readProjectConf h projectDir = Inr conf \<Longrightarrow> wellTyped conf \<Longrightarrow>
     getTasks h projectDir shown = (Inr (spec_generate h conf), shown)"
  by (simp add: getTasks_parsed generate_spec)

lemma getTasks_Inr:
  assumes "readProjectConf h projectDir = Inr conf"
    and "fst (getTasks h projectDir shown) = Inr out"
  shows "wellTyped conf \<and> out = spec_generate h conf \<and>
         collectProjectData conf = Inr (spec_environments conf)"
  using assms
  by (simp add: getTasks_parsed generate_Inr wellTyped_def collectProjectData_spec)

lemma wellTyped_collected:
  "collectProjectData conf = Inr pd \<Longrightarrow> \<forall>d \<in> set pd. isString (platform d) \<Longrightarrow>
     wellTyped conf \<and> pd = spec_environments conf"
  by (auto simp: collectProjectData_Inr wellTyped_def)

lemma qualified_has_environment:
  "x \<in> set (spec_qualified h envs) \<Longrightarrow> ''--environment'' \<in> set (definition_args x)"
  by (auto simp: spec_qualified_def split: if_splits)

lemma baseTaskOf_not_qualified:
  "t \<in> set baseTasks \<Longrightarrow> baseTaskOf h t \<notin> set (spec_qualified h envs)"
  using qualified_has_environment [of "baseTaskOf h t" h envs] catalog_no_environment [of t]
  by auto

lemma spec_count_base:
  assumes "t \<in> set baseTasks"
  shows "count_list (spec_generate h conf) (baseTaskOf h t) =
           (if \<exists>d \<in> set (spec_environments conf). spec_compatible t (platform d)
            then 1 else 0)"
  using assms
  by (simp add: spec_generate_def base_count baseTaskOf_not_qualified baseTaskOf_not_core)

lemma spec_count_env:
  assumes "t \<in> set baseTasks"
  shows "count_list (spec_generate h conf) (envTaskOf h e t) =
           (if 1 < length (spec_environments conf)
            then length (filter (\<lambda>d. env d = e \<and> spec_compatible t (platform d))
                           (spec_environments conf))
            else 0)"
  using assms
  by (simp add: spec_generate_def envTaskOf_not_base envTaskOf_not_core
      spec_qualified_def env_blocks_count)

lemma baseTaskOf_in_spec:
  assumes "t \<in> set baseTasks"
  shows "baseTaskOf h t \<in> set (spec_generate h conf) \<longleftrightarrow>
           (\<exists>d \<in> set (spec_environments conf). spec_compatible t (platform d))"
  using spec_count_base [OF assms, of h conf]
    count_list_0_iff [of "spec_generate h conf" "baseTaskOf h t"]
  by (auto split: if_splits)

lemma envTaskOf_in_spec:
  assumes "t \<in> set baseTasks"
  shows "envTaskOf h e t \<in> set (spec_generate h conf) \<longleftrightarrow>
           1 < length (spec_environments conf) \<and>
           (\<exists>d \<in> set (spec_environments conf). env d = e \<and> spec_compatible t (platform d))"
proof -
  have "envTaskOf h e t \<in> set (spec_generate h conf) \<longleftrightarrow>
          count_list (spec_generate h conf) (envTaskOf h e t) \<noteq> 0"
    by (simp add: count_list_0_iff)
  also have "\<dots> \<longleftrightarrow> 1 < length (spec_environments conf) \<and>
      filter (\<lambda>d. env d = e \<and> spec_compatible t (platform d)) (spec_environments conf) \<noteq> []"
    by (simp add: spec_count_env [OF assms])
  also have "\<dots> \<longleftrightarrow> 1 < length (spec_environments conf) \<and>
      (\<exists>d \<in> set (spec_environments conf). env d = e \<and> spec_compatible t (platform d))"
    by (auto simp: filter_empty_conv)
  finally show ?thesis .
qed

lemma program_only_atmelavr:
  "t \<in> set baseTasks \<Longrightarrow> ''program'' \<in> set (args t) \<Longrightarrow>
     spec_compatible t pf \<longleftrightarrow> pf = JStr ''atmelavr''"
  by (auto simp: baseTasks_def spec_compatible_def)

lemma uploadfs_only_espressif:
  "t \<in> set baseTasks \<Longrightarrow> ''uploadfs'' \<in> set (args t) \<Longrightarrow>
     spec_compatible t pf \<longleftrightarrow> (\<exists>s. pf = JStr s \<and> startsWith s ''espressif'')"
  by (auto simp: baseTasks_def spec_compatible_def startsWith_prefix split: js_value.splits)

lemma indexOf_None: "indexOf xs x = None \<longleftrightarrow> x \<notin> set xs"
  by (induction xs) (auto split: option.splits)

lemma indexOf_first: "x \<notin> set xs \<Longrightarrow> indexOf (xs @ x # ys) x = Some (length xs)"
  by (induction xs) auto

lemma creator_name_plain:
  "''--environment'' \<notin> set (priv_args tc) \<Longrightarrow> creator_name tc = priv_name tc"
  by (simp add: creator_name_def coreEnvName_def indexOf_None [THEN iffD2])

lemma coreEnvName_qualified:
  "''--environment'' \<notin> set as \<Longrightarrow>
     coreEnvName \<lparr>priv_name = n, priv_args = as @ [''--environment'', e]\<rparr> = Some e"
  by (simp add: coreEnvName_def indexOf_first at_index_def nth_append)

lemma task_name_baseTaskOf:
  "t \<in> set baseTasks \<Longrightarrow> task_name (baseTaskOf h t) = name t"
  by (simp add: baseTaskOf_def creator_name_plain catalog_no_environment)

lemma task_name_envTaskOf:
  "t \<in> set baseTasks \<Longrightarrow>
     task_name (envTaskOf h e t) = (if e = [] then name t else name t @ '' ('' @ e @ '')'')"
  by (simp add: envTaskOf_def creator_name_def coreEnvName_qualified catalog_no_environment)

lemma parsed_example:
  "readProjectConf (exampleHost content conf) ''/project'' = Inr conf"
  by (simp add: readProjectConf_def exampleHost_def)

lemma twoEnv_data:
  "collectProjectData twoEnvConf =
     Inr [\<lparr>env = ''uno'', platform = JStr ''atmelavr''\<rparr>,
          \<lparr>env = ''esp'', platform = JStr ''espressif32''\<rparr>]"
  by (simp add: collectProjectData_def twoEnvConf_def pushProjectEnv_def startsWith_def
      ENV_NAME_PREFIX_def)

lemma oneEnv_data:
  "collectProjectData oneEnvConf = Inr [\<lparr>env = ''uno'', platform = JStr ''atmelavr''\<rparr>]"
  by (simp add: collectProjectData_def oneEnvConf_def pushProjectEnv_def startsWith_def
      ENV_NAME_PREFIX_def)

lemma emptyName_data:
  "collectProjectData emptyNameConf =
     Inr [\<lparr>env = [], platform = JStr ''atmelavr''\<rparr>, \<lparr>env = ''b'', platform = JStr ''atmelavr''\<rparr>]"
  by (simp add: collectProjectData_def emptyNameConf_def pushProjectEnv_def startsWith_def
      ENV_NAME_PREFIX_def)

lemma example_tasks_in_catalog:
  "programTask \<in> set baseTasks" "uploadfsTask \<in> set baseTasks" "buildTask \<in> set baseTasks"
  by (simp_all add: programTask_def uploadfsTask_def buildTask_def baseTasks_def)

lemma no_environments:
  assumes "\<forall>entry \<in> set conf.
     \<not> (startsWith (fst entry) ENV_NAME_PREFIX \<and>
        (\<exists>pf. readPlatform (snd entry) = Inr (Some pf) \<and> truthy pf))"
    and "\<forall>entry \<in> set conf. snd entry \<noteq> JNull"
  shows "spec_environments conf = []"
proof -
  have "spec_environment entry = None" if "entry \<in> set conf" for entry
    using assms that
    by (auto simp: spec_environment_def startsWith_prefix readPlatform_declared
        split: option.splits)
  then have "List.map_filter spec_environment conf = []"
    by (induction conf) simp_all
  then show ?thesis
    by (simp add: spec_environments_def)
qed

lemma spec_no_environments: "spec_environments conf = [] \<Longrightarrow> spec_generate h conf = coreTasks h"
  by (simp add: spec_generate_def spec_base_def spec_qualified_def)

lemma coreTasks_names:
  "map task_name (coreTasks h) =
     [''Rebuild IntelliSense Index'',
      ''Update installed platforms, packages and libraries'',
      ''Upgrade PlatformIO Core'']"
  by (simp add: coreTasks_def creator_name_def coreEnvName_def)

lemma spec_no_qualified:
  assumes "length (spec_environments conf) \<le> 1" and "x \<in> set (spec_generate h conf)"
  shows "''--environment'' \<notin> set (definition_args x)"
  using assms
  by (auto simp: spec_generate_def spec_qualified_def
      dest: base_no_environment core_no_environment)

lemma qualified_origin:
  assumes "x \<in> set (spec_generate h conf)" and "''--environment'' \<in> set (definition_args x)"
  shows "\<exists>d \<in> set (spec_environments conf). \<exists>t \<in> set baseTasks.
           spec_compatible t (platform d) \<and> x = envTaskOf h (env d) t"
proof -
  from assms have "x \<in> set (spec_qualified h (spec_environments conf))"
    by (auto simp: spec_generate_def dest: base_no_environment core_no_environment)
  then show ?thesis
    by (auto simp: spec_qualified_def split: if_splits)
qed

lemma resolvePioCmd_not_windows: "\<not> IS_WINDOWS h \<Longrightarrow> resolvePioCmd h = ''platformio''"
  by (simp add: resolvePioCmd_def)

lemma searchPath_no_match:
  "\<forall>item \<in> set items. \<not> isFileSync h (path_join h item pioCmd) \<Longrightarrow>
     searchPath h items pioCmd = pioCmd"
  by (induction items) simp_all

lemma searchPath_first_match:
  assumes "\<forall>item \<in> set before. \<not> isFileSync h (path_join h item pioCmd)"
    and "isFileSync h (path_join h dir pioCmd)"
    and "\<forall>item \<in> set after. \<not> isFileSync h (path_join h item (path_join h dir pioCmd))"
  shows "searchPath h (before @ dir # after) pioCmd = path_join h dir pioCmd"
  using assms by (induction before) (simp_all add: searchPath_no_match)

lemma twoEnv_wellTyped: "wellTyped twoEnvConf"
  by (simp add: wellTyped_def twoEnvConf_def spec_environments_def spec_environment_def
      ENV_NAME_PREFIX_def)

lemma twoEnv_tasks:
  "getTasks twoEnvHost ''/project'' [] = (Inr (spec_generate twoEnvHost twoEnvConf), [])"
  by (simp add: getTasks_wellTyped twoEnv_wellTyped twoEnvHost_def parsed_example)

subsection \<open>Claims about the generated task list\<close>

text \<open>
  Claim C1. On a platform string, a template is compatible exactly when: if its arguments
  contain \<^verbatim>\<open>program\<close> the platform is \<^verbatim>\<open>atmelavr\<close>, and if they contain \<^verbatim>\<open>uploadfs\<close>
  the platform starts with \<^verbatim>\<open>espressif\<close>; a template with neither is compatible with every
  platform value. Consequently, in every list \<^verbatim>\<open>getTasks\<close> returns for a parsed
  configuration, the base task of a catalog template with \<^verbatim>\<open>program\<close> is present exactly
  when some declared environment has platform \<^verbatim>\<open>atmelavr\<close>, and its task for environment
  \<open>e\<close> exactly when more than one environment is declared and \<open>e\<close> is declared with
  platform \<^verbatim>\<open>atmelavr\<close>; likewise for \<^verbatim>\<open>uploadfs\<close> and the platforms starting with
  \<^verbatim>\<open>espressif\<close>.
\<close>

theorem platform_filter_correct:
  "taskCompatibleWithPlatform t (JStr pf) =
     Inr ((''program'' \<in> set (args t) \<longrightarrow> pf = ''atmelavr'') \<and>
          (''uploadfs'' \<in> set (args t) \<longrightarrow> startsWith pf ''espressif''))
   \<and> (''program'' \<notin> set (args t) \<and> ''uploadfs'' \<notin> set (args t)
        \<longrightarrow> taskCompatibleWithPlatform t v = Inr True)
   \<and> (readProjectConf h projectDir = Inr conf \<and>
       fst (getTasks h projectDir shown) = Inr out \<and>
       c \<in> set baseTasks \<and> ''program'' \<in> set (args c) \<longrightarrow>
        (\<exists>pd. collectProjectData conf = Inr pd \<and>
           (baseTaskOf h c \<in> set out \<longleftrightarrow> (\<exists>d \<in> set pd. platform d = JStr ''atmelavr'')) \<and>
           (envTaskOf h e c \<in> set out \<longleftrightarrow>
              1 < length pd \<and> (\<exists>d \<in> set pd. env d = e \<and> platform d = JStr ''atmelavr''))))
   \<and> (readProjectConf h projectDir = Inr conf \<and>
       fst (getTasks h projectDir shown) = Inr out \<and>
       c \<in> set baseTasks \<and> ''uploadfs'' \<in> set (args c) \<longrightarrow>
        (\<exists>pd. collectProjectData conf = Inr pd \<and>
           (baseTaskOf h c \<in> set out \<longleftrightarrow>
              (\<exists>d \<in> set pd. \<exists>s. platform d = JStr s \<and> startsWith s ''espressif'')) \<and>
           (envTaskOf h e c \<in> set out \<longleftrightarrow>
              1 < length pd \<and>
              (\<exists>d \<in> set pd. env d = e \<and>
                 (\<exists>s. platform d = JStr s \<and> startsWith s ''espressif'')))))"
proof (intro conjI impI)
  show "taskCompatibleWithPlatform t (JStr pf) =
     Inr ((''program'' \<in> set (args t) \<longrightarrow> pf = ''atmelavr'') \<and>
          (''uploadfs'' \<in> set (args t) \<longrightarrow> startsWith pf ''espressif''))"
    by (simp add: taskCompatibleWithPlatform_def array_includes_def)
next
  assume "''program'' \<notin> set (args t) \<and> ''uploadfs'' \<notin> set (args t)"
  then show "taskCompatibleWithPlatform t v = Inr True"
    by (simp add: compatible_no_target)
next
  assume a: "readProjectConf h projectDir = Inr conf \<and>
       fst (getTasks h projectDir shown) = Inr out \<and>
       c \<in> set baseTasks \<and> ''program'' \<in> set (args c)"
  then have out: "out = spec_generate h conf"
    and pd: "collectProjectData conf = Inr (spec_environments conf)"
    using getTasks_Inr [of h projectDir conf shown out] by simp_all
  from a show "\<exists>pd. collectProjectData conf = Inr pd \<and>
           (baseTaskOf h c \<in> set out \<longleftrightarrow> (\<exists>d \<in> set pd. platform d = JStr ''atmelavr'')) \<and>
           (envTaskOf h e c \<in> set out \<longleftrightarrow>
              1 < length pd \<and> (\<exists>d \<in> set pd. env d = e \<and> platform d = JStr ''atmelavr''))"
    by (simp add: pd out baseTaskOf_in_spec envTaskOf_in_spec program_only_atmelavr)
next
  assume a: "readProjectConf h projectDir = Inr conf \<and>
       fst (getTasks h projectDir shown) = Inr out \<and>
       c \<in> set baseTasks \<and> ''uploadfs'' \<in> set (args c)"
  then have out: "out = spec_generate h conf"
    and pd: "collectProjectData conf = Inr (spec_environments conf)"
    using getTasks_Inr [of h projectDir conf shown out] by simp_all
  from a show "\<exists>pd. collectProjectData conf = Inr pd \<and>
           (baseTaskOf h c \<in> set out \<longleftrightarrow>
              (\<exists>d \<in> set pd. \<exists>s. platform d = JStr s \<and> startsWith s ''espressif'')) \<and>
           (envTaskOf h e c \<in> set out \<longleftrightarrow>
              1 < length pd \<and>
              (\<exists>d \<in> set pd. env d = e \<and>
                 (\<exists>s. platform d = JStr s \<and> startsWith s ''espressif'')))"
    by (simp add: pd out baseTaskOf_in_spec envTaskOf_in_spec uploadfs_only_espressif)
qed

theorem platform_filter_correct_witness:
  "taskCompatibleWithPlatform programTask (JStr ''atmelavr'') = Inr True
   \<and> taskCompatibleWithPlatform programTask (JStr ''espressif32'') = Inr False
   \<and> taskCompatibleWithPlatform buildTask (JBool True) = Inr True
   \<and> readProjectConf twoEnvHost ''/project'' = Inr twoEnvConf
   \<and> fst (getTasks twoEnvHost ''/project'' []) = Inr (spec_generate twoEnvHost twoEnvConf)
   \<and> programTask \<in> set baseTasks \<and> ''program'' \<in> set (args programTask)
   \<and> baseTaskOf twoEnvHost programTask \<in> set (spec_generate twoEnvHost twoEnvConf)
   \<and> envTaskOf twoEnvHost ''uno'' programTask \<in> set (spec_generate twoEnvHost twoEnvConf)
   \<and> envTaskOf twoEnvHost ''esp'' programTask \<notin> set (spec_generate twoEnvHost twoEnvConf)
   \<and> uploadfsTask \<in> set baseTasks \<and> ''uploadfs'' \<in> set (args uploadfsTask)
   \<and> envTaskOf twoEnvHost ''esp'' uploadfsTask \<in> set (spec_generate twoEnvHost twoEnvConf)
   \<and> envTaskOf twoEnvHost ''uno'' uploadfsTask \<notin> set (spec_generate twoEnvHost twoEnvConf)"
proof -
  let ?out = "spec_generate twoEnvHost twoEnvConf"
  have parsed: "readProjectConf twoEnvHost ''/project'' = Inr twoEnvConf"
    by (simp add: twoEnvHost_def parsed_example)
  have res: "fst (getTasks twoEnvHost ''/project'' []) = Inr ?out"
    by (simp add: twoEnv_tasks)
  have p: "''program'' \<in> set (args programTask)" "''uploadfs'' \<notin> set (args programTask)"
    by (simp_all add: programTask_def)
  have u: "''uploadfs'' \<in> set (args uploadfsTask)"
    by (simp add: uploadfsTask_def)
  have b: "''program'' \<notin> set (args buildTask) \<and> ''uploadfs'' \<notin> set (args buildTask)"
    by (simp add: buildTask_def)
  note inst = platform_filter_correct [where h = twoEnvHost and projectDir = "''/project''"
      and conf = twoEnvConf and shown = "[]" and out = ?out]
  from inst [where t = programTask and pf = "''atmelavr''" and c = programTask and e = "''uno''"
      and v = JNull]
  have 1: "taskCompatibleWithPlatform programTask (JStr ''atmelavr'') = Inr True"
    and 2: "baseTaskOf twoEnvHost programTask \<in> set ?out"
    and 3: "envTaskOf twoEnvHost ''uno'' programTask \<in> set ?out"
    using parsed res p example_tasks_in_catalog by (simp_all add: twoEnv_data)
  from inst [where t = programTask and pf = "''espressif32''" and c = programTask
      and e = "''esp''" and v = JNull]
  have 4: "taskCompatibleWithPlatform programTask (JStr ''espressif32'') = Inr False"
    and 5: "envTaskOf twoEnvHost ''esp'' programTask \<notin> set ?out"
    using parsed res p example_tasks_in_catalog by (simp_all add: twoEnv_data)
  from inst [where t = buildTask and pf = "''espressif32''" and c = uploadfsTask
      and e = "''esp''" and v = "JBool True"]
  have 6: "envTaskOf twoEnvHost ''esp'' uploadfsTask \<in> set ?out"
    and 8: "taskCompatibleWithPlatform buildTask (JBool True) = Inr True"
    using parsed res u b example_tasks_in_catalog by (simp_all add: twoEnv_data startsWith_def)
  from inst [where t = programTask and pf = "''espressif32''" and c = uploadfsTask
      and e = "''uno''" and v = JNull]
  have 7: "envTaskOf twoEnvHost ''uno'' uploadfsTask \<notin> set ?out"
    using parsed res u example_tasks_in_catalog by (simp add: twoEnv_data startsWith_def)
  from 1 2 3 4 5 6 7 8 parsed res p u example_tasks_in_catalog show ?thesis by simp
qed

text \<open>
  Claim C10. No template of the catalog has \<^verbatim>\<open>--environment\<close> among its arguments, so for a
  base task \<^verbatim>\<open>_coreEnvName\<close> is undefined and the display name is the template's name; the
  getter \<^verbatim>\<open>name\<close> changes a name only when the arguments contain \<^verbatim>\<open>--environment\<close>.
\<close>

theorem base_task_display_name:
  "(\<forall>t \<in> set baseTasks.
      ''--environment'' \<notin> set (args t) \<and>
      coreEnvName \<lparr>priv_name = name t, priv_args = args t\<rparr> = None \<and>
      task_name (baseTaskOf h t) = name t)
   \<and> (\<forall>tc. creator_name tc \<noteq> priv_name tc \<longrightarrow> ''--environment'' \<in> set (priv_args tc))"
proof (intro conjI ballI allI impI)
  fix t assume t: "t \<in> set baseTasks"
  then show "''--environment'' \<notin> set (args t)" by (rule catalog_no_environment)
  then show "coreEnvName \<lparr>priv_name = name t, priv_args = args t\<rparr> = None"
    by (simp add: coreEnvName_def indexOf_None [THEN iffD2])
  from t show "task_name (baseTaskOf h t) = name t" by (rule task_name_baseTaskOf)
next
  fix tc assume "creator_name tc \<noteq> priv_name tc"
  then show "''--environment'' \<in> set (priv_args tc)"
    using creator_name_plain [of tc] by blast
qed

theorem base_task_display_name_witness:
  "buildTask \<in> set baseTasks \<and> ''--environment'' \<notin> set (args buildTask)
   \<and> task_name (baseTaskOf twoEnvHost buildTask) = ''Build''
   \<and> creator_name \<lparr>priv_name = ''Build'', priv_args = [''run'', ''--environment'', ''uno'']\<rparr>
       = ''Build (uno)''
   \<and> ''--environment'' \<in> set [''run'', ''--environment'', ''uno'']"
proof -
  have b: "buildTask \<in> set baseTasks" by (rule example_tasks_in_catalog)
  from base_task_display_name [of twoEnvHost] b
  have "''--environment'' \<notin> set (args buildTask)"
    and "task_name (baseTaskOf twoEnvHost buildTask) = name buildTask"
    by blast+
  moreover have "name buildTask = ''Build''" by (simp add: buildTask_def)
  moreover have "creator_name \<lparr>priv_name = ''Build'',
      priv_args = [''run'', ''--environment'', ''uno'']\<rparr> = ''Build (uno)''"
    by (simp add: creator_name_def coreEnvName_def at_index_def)
  ultimately show ?thesis using b by simp
qed


text \<open>
  Claim C3, amended. For a parsed configuration with no top-level value \<^verbatim>\<open>null\<close>, in which
  no section both starts with \<^verbatim>\<open>env:\<close> and declares a platform that is truthy (for a string:
  not empty), \<^verbatim>\<open>getTasks\<close> returns the three PIO Core tasks and nothing else, and shows no
  message: Rebuild IntelliSense Index, Update installed platforms, packages and libraries,
  Upgrade PlatformIO Core.
\<close>

theorem no_environment_only_core_tasks:
  assumes "readProjectConf h projectDir = Inr conf"
    and "\<forall>entry \<in> set conf. snd entry \<noteq> JNull"
    and "\<forall>entry \<in> set conf.
       \<not> (startsWith (fst entry) ENV_NAME_PREFIX \<and>
          (\<exists>pf. readPlatform (snd entry) = Inr (Some pf) \<and> truthy pf))"
  shows "getTasks h projectDir shown = (Inr (coreTasks h), shown) \<and>
         length (coreTasks h) = 3 \<and>
         map task_name (coreTasks h) =
           [''Rebuild IntelliSense Index'',
            ''Update installed platforms, packages and libraries'',
            ''Upgrade PlatformIO Core'']"
proof -
  have none: "spec_environments conf = []"
    using assms(3,2) by (rule no_environments)
  with assms(2) have "wellTyped conf"
    by (simp add: wellTyped_def)
  with assms(1) none show ?thesis
    by (simp add: getTasks_wellTyped spec_no_environments coreTasks_names)
       (simp add: coreTasks_def)
qed

theorem no_environment_only_core_tasks_witness:
  "getTasks noEnvHost ''/project'' [] = (Inr (coreTasks noEnvHost), [])
   \<and> map task_name (coreTasks noEnvHost) =
     [''Rebuild IntelliSense Index'',
      ''Update installed platforms, packages and libraries'',
      ''Upgrade PlatformIO Core'']"
proof -
  have parsed: "readProjectConf noEnvHost ''/project'' = Inr noEnvConf"
    by (simp add: noEnvHost_def parsed_example)
  have typed: "\<forall>entry \<in> set noEnvConf. snd entry \<noteq> JNull"
    by (simp add: noEnvConf_def)
  have none: "\<forall>entry \<in> set noEnvConf.
       \<not> (startsWith (fst entry) ENV_NAME_PREFIX \<and>
          (\<exists>pf. readPlatform (snd entry) = Inr (Some pf) \<and> truthy pf))"
    by (simp add: noEnvConf_def startsWith_def ENV_NAME_PREFIX_def)
  from no_environment_only_core_tasks [OF parsed typed none, of "[]"] show ?thesis
    by simp
qed

text \<open>
  The claim as first stated covers every parsed configuration without an environment. The
  content \<^verbatim>\<open>foo = null\<close> parses to an object whose only key, \<^verbatim>\<open>foo\<close>, holds \<^verbatim>\<open>null\<close>: no
  section starts with \<^verbatim>\<open>env:\<close>, and reading \<^verbatim>\<open>platform\<close> from \<^verbatim>\<open>null\<close> throws after the
  \<^verbatim>\<open>try\<close>, so \<^verbatim>\<open>getTasks\<close> ends with a \<^verbatim>\<open>TypeError\<close> and returns no task.
\<close>

theorem null_value_counterexample:
  "readProjectConf nullValueHost ''/project'' = Inr nullValueConf
   \<and> map fst nullValueConf = [''foo'']
   \<and> \<not> startsWith ''foo'' ENV_NAME_PREFIX
   \<and> getTasks nullValueHost ''/project'' [] = (Inl TypeError, [])
   \<and> fst (getTasks nullValueHost ''/project'' []) \<noteq> Inr (coreTasks nullValueHost)"
proof -
  have parsed: "readProjectConf nullValueHost ''/project'' = Inr nullValueConf"
    by (simp add: nullValueHost_def parsed_example)
  have "generate nullValueHost nullValueConf = Inl TypeError"
    by (simp add: generate_def collectProjectData_def nullValueConf_def pushProjectEnv_def)
  with parsed show ?thesis
    by (simp add: getTasks_parsed) (simp add: nullValueConf_def startsWith_def ENV_NAME_PREFIX_def)
qed

text \<open>
  Claim C4, amended. For a parsed configuration with no top-level value \<^verbatim>\<open>null\<close> that
  declares exactly one environment, whose platform is a string and compatible with a template
  of the catalog, the base task of that template occurs exactly once in the list
  \<^verbatim>\<open>getTasks\<close> returns, under the template's name, and the list has no
  environment-qualified task at all: no element has \<^verbatim>\<open>--environment\<close> among its arguments.
\<close>

theorem single_environment_base_only:
  assumes "readProjectConf h projectDir = Inr conf"
    and "collectProjectData conf = Inr [d]"
    and "isString (platform d)"
    and "t \<in> set baseTasks"
    and "taskCompatibleWithPlatform t (platform d) = Inr True"
  shows "\<exists>out. getTasks h projectDir shown = (Inr out, shown) \<and>
           count_list out (baseTaskOf h t) = 1 \<and>
           task_name (baseTaskOf h t) = name t \<and>
           (\<forall>x \<in> set out. ''--environment'' \<notin> set (definition_args x)) \<and>
           (\<forall>t' e. envTaskOf h e t' \<notin> set out)"
proof -
  from assms(2,3) have typed: "wellTyped conf" and envs: "spec_environments conf = [d]"
    using wellTyped_collected [of conf "[d]"] by simp_all
  let ?out = "spec_generate h conf"
  have res: "getTasks h projectDir shown = (Inr ?out, shown)"
    using assms(1) typed by (rule getTasks_wellTyped)
  have compat: "spec_compatible t (platform d)"
    using assms(3,5) by (simp add: compatible_iff_spec)
  have cnt: "count_list ?out (baseTaskOf h t) = 1"
    using compat by (simp add: spec_count_base [OF assms(4)] envs)
  have nm: "task_name (baseTaskOf h t) = name t"
    using assms(4) by (rule task_name_baseTaskOf)
  have none: "''--environment'' \<notin> set (definition_args x)" if "x \<in> set ?out" for x
    using that spec_no_qualified [of conf x h] by (simp add: envs)
  have "envTaskOf h e t' \<notin> set ?out" for t' e
    using none [of "envTaskOf h e t'"] by auto
  with res cnt nm none show ?thesis by blast
qed

theorem single_environment_base_only_witness:
  "getTasks oneEnvHost ''/project'' [] = (Inr (spec_generate oneEnvHost oneEnvConf), [])
   \<and> count_list (spec_generate oneEnvHost oneEnvConf) (baseTaskOf oneEnvHost programTask) = 1
   \<and> task_name (baseTaskOf oneEnvHost programTask) = ''Upload using Programmer''
   \<and> envTaskOf oneEnvHost ''uno'' programTask \<notin> set (spec_generate oneEnvHost oneEnvConf)"
proof -
  let ?d = "\<lparr>env = ''uno'', platform = JStr ''atmelavr''\<rparr>"
  have parsed: "readProjectConf oneEnvHost ''/project'' = Inr oneEnvConf"
    by (simp add: oneEnvHost_def parsed_example)
  have str: "isString (platform ?d)" by simp
  have compat: "taskCompatibleWithPlatform programTask (platform ?d) = Inr True"
    by (simp add: taskCompatibleWithPlatform_def programTask_def array_includes_def)
  from single_environment_base_only
    [OF parsed oneEnv_data str example_tasks_in_catalog(1) compat, of "[]"]
  obtain out where o: "getTasks oneEnvHost ''/project'' [] = (Inr out, [])"
    "count_list out (baseTaskOf oneEnvHost programTask) = 1"
    "task_name (baseTaskOf oneEnvHost programTask) = name programTask"
    "\<forall>t' e. envTaskOf oneEnvHost e t' \<notin> set out"
    by blast
  have "wellTyped oneEnvConf"
    using wellTyped_collected [OF oneEnv_data] by simp
  with parsed have "getTasks oneEnvHost ''/project'' [] =
      (Inr (spec_generate oneEnvHost oneEnvConf), [])"
    by (rule getTasks_wellTyped)
  with o(1) have "out = spec_generate oneEnvHost oneEnvConf" by simp
  moreover have "name programTask = ''Upload using Programmer''"
    by (simp add: programTask_def)
  ultimately show ?thesis using o by simp
qed

text \<open>
  The claim as first stated covers every platform value. A section \<^verbatim>\<open>[env:x]\<close> with the
  bare line \<^verbatim>\<open>platform\<close> declares one environment with the platform \<^verbatim>\<open>true\<close>; the Build
  template is compatible with it, but the test of the \<^verbatim>\<open>uploadfs\<close> template calls
  \<^verbatim>\<open>startsWith\<close> on \<^verbatim>\<open>true\<close>, and \<^verbatim>\<open>getTasks\<close> ends with a \<^verbatim>\<open>TypeError\<close>: no base task
  appears.
\<close>

theorem bare_platform_counterexample:
  "readProjectConf barePlatformHost ''/project'' = Inr barePlatformConf
   \<and> collectProjectData barePlatformConf = Inr [\<lparr>env = ''x'', platform = JBool True\<rparr>]
   \<and> buildTask \<in> set baseTasks
   \<and> taskCompatibleWithPlatform buildTask (JBool True) = Inr True
   \<and> getTasks barePlatformHost ''/project'' [] = (Inl TypeError, [])"
proof -
  have parsed: "readProjectConf barePlatformHost ''/project'' = Inr barePlatformConf"
    by (simp add: barePlatformHost_def parsed_example)
  have pd: "collectProjectData barePlatformConf = Inr [\<lparr>env = ''x'', platform = JBool True\<rparr>]"
    by (simp add: collectProjectData_def barePlatformConf_def pushProjectEnv_def startsWith_def
        ENV_NAME_PREFIX_def)
  have "generate barePlatformHost barePlatformConf = Inl TypeError"
    by (simp add: generate_def pd baseTasks_def pushBaseTask_def taskCompatibleWithPlatform_def
        array_includes_def)
  with parsed pd show ?thesis
    by (simp add: getTasks_parsed example_tasks_in_catalog)
       (simp add: taskCompatibleWithPlatform_def buildTask_def array_includes_def)
qed

text \<open>
  Claim C5, amended. For a parsed configuration with no top-level value \<^verbatim>\<open>null\<close> in which
  the platform of every declared environment is a string (\<open>wellTyped\<close>), the list
  \<^verbatim>\<open>getTasks\<close> returns is \<open>spec_generate\<close>: the base tasks in catalog order, each present
  iff some declared environment is compatible; then, when more than one environment is
  declared, the environment-qualified tasks, environment by environment in the order of
  declaration and in catalog order for each; then the three PIO Core tasks. For every other
  parsed configuration \<^verbatim>\<open>getTasks\<close> ends with an exception.
\<close>

theorem task_order:
  "readProjectConf h projectDir = Inr conf \<longrightarrow>
     (wellTyped conf \<longrightarrow> getTasks h projectDir shown = (Inr (spec_generate h conf), shown)) \<and>
     (\<not> wellTyped conf \<longrightarrow> isl (fst (getTasks h projectDir shown)))"
  by (simp add: getTasks_parsed generate_spec generate_throws)

theorem task_order_witness:
  "wellTyped twoEnvConf
   \<and> fst (getTasks twoEnvHost ''/project'' []) = Inr (spec_generate twoEnvHost twoEnvConf)
   \<and> map task_name (spec_generate twoEnvHost twoEnvConf) =
         [''Build'',
           ''Clean'',
           ''Upload'',
           ''Upload and Monitor'',
           ''Upload using Programmer'',
           ''Upload SPIFFS image'',
           ''Monitor'',
           ''Test'',
           ''Remote'',
           ''Pre-Debug''] @
         [''Build (uno)'',
           ''Clean (uno)'',
           ''Upload (uno)'',
           ''Upload and Monitor (uno)'',
           ''Upload using Programmer (uno)'',
           ''Monitor (uno)'',
           ''Test (uno)'',
           ''Remote (uno)'',
           ''Pre-Debug (uno)''] @
         [''Build (esp)'',
           ''Clean (esp)'',
           ''Upload (esp)'',
           ''Upload and Monitor (esp)'',
           ''Upload SPIFFS image (esp)'',
           ''Monitor (esp)'',
           ''Test (esp)'',
           ''Remote (esp)'',
           ''Pre-Debug (esp)''] @
         [''Rebuild IntelliSense Index'',
           ''Update installed platforms, packages and libraries'',
           ''Upgrade PlatformIO Core'']"
proof -
  have parsed: "readProjectConf twoEnvHost ''/project'' = Inr twoEnvConf"
    by (simp add: twoEnvHost_def parsed_example)
  have envs: "spec_environments twoEnvConf =
      [\<lparr>env = ''uno'', platform = JStr ''atmelavr''\<rparr>,
       \<lparr>env = ''esp'', platform = JStr ''espressif32''\<rparr>]"
    using twoEnv_data by (simp add: collectProjectData_Inr)
  from task_order [of twoEnvHost "''/project''" twoEnvConf "[]"] parsed twoEnv_wellTyped
  have "fst (getTasks twoEnvHost ''/project'' []) = Inr (spec_generate twoEnvHost twoEnvConf)"
    by simp
  moreover have "map task_name (spec_generate twoEnvHost twoEnvConf) =
         [''Build'',
           ''Clean'',
           ''Upload'',
           ''Upload and Monitor'',
           ''Upload using Programmer'',
           ''Upload SPIFFS image'',
           ''Monitor'',
           ''Test'',
           ''Remote'',
           ''Pre-Debug''] @
         [''Build (uno)'',
           ''Clean (uno)'',
           ''Upload (uno)'',
           ''Upload and Monitor (uno)'',
           ''Upload using Programmer (uno)'',
           ''Monitor (uno)'',
           ''Test (uno)'',
           ''Remote (uno)'',
           ''Pre-Debug (uno)''] @
         [''Build (esp)'',
           ''Clean (esp)'',
           ''Upload (esp)'',
           ''Upload and Monitor (esp)'',
           ''Upload SPIFFS image (esp)'',
           ''Monitor (esp)'',
           ''Test (esp)'',
           ''Remote (esp)'',
           ''Pre-Debug (esp)''] @
         [''Rebuild IntelliSense Index'',
           ''Update installed platforms, packages and libraries'',
           ''Upgrade PlatformIO Core'']"
    by (simp add: spec_generate_def spec_base_def spec_qualified_def envs baseTasks_def
        spec_compatible_def coreTasks_names task_name_baseTaskOf task_name_envTaskOf
        baseTaskOf_def envTaskOf_def creator_name_def coreEnvName_def at_index_def)
  ultimately show ?thesis using twoEnv_wellTyped by simp
qed

text \<open>
  The claim as first stated promises the ordered list for every parsed configuration. With
  an environment on espressif32 and one whose platform is the number 8266, the platform test
  calls \<^verbatim>\<open>startsWith\<close> on the number and \<^verbatim>\<open>getTasks\<close> ends with a \<^verbatim>\<open>TypeError\<close>: there
  is no list.
\<close>

theorem number_platform_counterexample:
  "readProjectConf numberPlatformHost ''/project'' = Inr numberPlatformConf
   \<and> collectProjectData numberPlatformConf =
       Inr [\<lparr>env = ''esp'', platform = JStr ''espressif32''\<rparr>,
            \<lparr>env = ''n'', platform = JNum 8266\<rparr>]
   \<and> getTasks numberPlatformHost ''/project'' [] = (Inl TypeError, [])"
proof -
  have parsed: "readProjectConf numberPlatformHost ''/project'' = Inr numberPlatformConf"
    by (simp add: numberPlatformHost_def parsed_example)
  have pd: "collectProjectData numberPlatformConf =
       Inr [\<lparr>env = ''esp'', platform = JStr ''espressif32''\<rparr>,
            \<lparr>env = ''n'', platform = JNum 8266\<rparr>]"
    by (simp add: collectProjectData_def numberPlatformConf_def pushProjectEnv_def
        startsWith_def ENV_NAME_PREFIX_def)
  have "generate numberPlatformHost numberPlatformConf = Inl TypeError"
    by (simp add: generate_def pd baseTasks_def pushBaseTask_def pushEnvTasks_def
        pushEnvTask_def taskCompatibleWithPlatform_def array_includes_def startsWith_def)
  with parsed pd show ?thesis
    by (simp add: getTasks_parsed)
qed

text \<open>
  Claim C2, amended. For a parsed configuration (an object: each section name once) with no
  top-level value \<^verbatim>\<open>null\<close> that declares two or more environments, all with a string for
  platform, a declared environment and a template of the catalog: the environment-qualified
  task of the pair occurs exactly once in the list \<^verbatim>\<open>getTasks\<close> returns when the template
  is compatible with the environment's platform, and not at all otherwise; its arguments are
  the template's followed by \<^verbatim>\<open>--environment\<close> and the environment name; its display name
  is the template's name followed by the environment name in parentheses when that name is
  not empty, and the template's name alone when it is empty. Every task of the list with
  \<^verbatim>\<open>--environment\<close> among its arguments is the task of such a compatible pair.
\<close>

theorem qualified_tasks:
  assumes "readProjectConf h projectDir = Inr conf"
    and "distinct (map fst conf)"
    and "collectProjectData conf = Inr pd"
    and "\<forall>d' \<in> set pd. isString (platform d')"
    and "2 \<le> length pd"
    and "d \<in> set pd"
    and "t \<in> set baseTasks"
  shows "\<exists>out. getTasks h projectDir shown = (Inr out, shown) \<and>
           count_list out (envTaskOf h (env d) t) =
             (if taskCompatibleWithPlatform t (platform d) = Inr True then 1 else 0) \<and>
           definition_args (envTaskOf h (env d) t) = args t @ [''--environment'', env d] \<and>
           execution_args (envTaskOf h (env d) t) = args t @ [''--environment'', env d] \<and>
           task_name (envTaskOf h (env d) t) =
             (if env d = [] then name t else name t @ '' ('' @ env d @ '')'') \<and>
           (\<forall>x \<in> set out.
              ''--environment'' \<in> set (definition_args x) \<longrightarrow>
              (\<exists>d' \<in> set pd. \<exists>t' \<in> set baseTasks.
                 taskCompatibleWithPlatform t' (platform d') = Inr True \<and>
                 x = envTaskOf h (env d') t'))"
proof -
  from assms(3,4) have typed: "wellTyped conf" and envs: "pd = spec_environments conf"
    using wellTyped_collected [of conf pd] by simp_all
  let ?out = "spec_generate h conf"
  have compat: "taskCompatibleWithPlatform t' (platform d') = Inr True \<longleftrightarrow>
      spec_compatible t' (platform d')" if "d' \<in> set pd" for t' d'
    using that assms(4) by (simp add: compatible_iff_spec)
  have res: "getTasks h projectDir shown = (Inr ?out, shown)"
    using assms(1) typed by (rule getTasks_wellTyped)
  have dist: "distinct (map env pd)"
    using assms(2) by (simp add: envs distinct_envs)
  have "count_list ?out (envTaskOf h (env d) t) =
          length (filter (\<lambda>d'. env d' = env d \<and> spec_compatible t (platform d')) pd)"
    using assms(5) by (simp add: spec_count_env [OF assms(7)] envs)
  also have "\<dots> = (if spec_compatible t (platform d) then 1 else 0)"
    by (simp add: filter_env_distinct [OF dist assms(6)])
  finally have cnt: "count_list ?out (envTaskOf h (env d) t) =
      (if taskCompatibleWithPlatform t (platform d) = Inr True then 1 else 0)"
    by (simp add: compat [OF assms(6)])
  have a: "definition_args (envTaskOf h (env d) t) = args t @ [''--environment'', env d]"
    by simp
  have e: "execution_args (envTaskOf h (env d) t) = args t @ [''--environment'', env d]"
    by (simp add: envTaskOf_def create_def)
  have nm: "task_name (envTaskOf h (env d) t) =
           (if env d = [] then name t else name t @ '' ('' @ env d @ '')'')"
    using assms(7) by (rule task_name_envTaskOf)
  have only: "\<exists>d' \<in> set pd. \<exists>t' \<in> set baseTasks.
        taskCompatibleWithPlatform t' (platform d') = Inr True \<and> x = envTaskOf h (env d') t'"
    if "x \<in> set ?out" "''--environment'' \<in> set (definition_args x)" for x
  proof -
    from qualified_origin [OF that] obtain d' t' where
      "d' \<in> set pd" "t' \<in> set baseTasks" "spec_compatible t' (platform d')"
      "x = envTaskOf h (env d') t'"
      by (auto simp: envs)
    with compat [of d' t'] show ?thesis by blast
  qed
  from res cnt a e nm only show ?thesis by blast
qed

theorem qualified_tasks_witness:
  "getTasks twoEnvHost ''/project'' [] = (Inr (spec_generate twoEnvHost twoEnvConf), [])
   \<and> count_list (spec_generate twoEnvHost twoEnvConf) (envTaskOf twoEnvHost ''uno'' programTask) = 1
   \<and> count_list (spec_generate twoEnvHost twoEnvConf) (envTaskOf twoEnvHost ''esp'' programTask) = 0
   \<and> definition_args (envTaskOf twoEnvHost ''uno'' programTask) =
       [''run'', ''--target'', ''program'', ''--environment'', ''uno'']
   \<and> task_name (envTaskOf twoEnvHost ''uno'' programTask) = ''Upload using Programmer (uno)''"
proof -
  let ?uno = "\<lparr>env = ''uno'', platform = JStr ''atmelavr''\<rparr>"
  let ?esp = "\<lparr>env = ''esp'', platform = JStr ''espressif32''\<rparr>"
  have parsed: "readProjectConf twoEnvHost ''/project'' = Inr twoEnvConf"
    by (simp add: twoEnvHost_def parsed_example)
  have dist: "distinct (map fst twoEnvConf)"
    by (simp add: twoEnvConf_def)
  have str: "\<forall>d' \<in> set [?uno, ?esp]. isString (platform d')"
    and len: "2 \<le> length [?uno, ?esp]"
    and uno: "?uno \<in> set [?uno, ?esp]" and esp: "?esp \<in> set [?uno, ?esp]"
    by simp_all
  have yes: "taskCompatibleWithPlatform programTask (platform ?uno) = Inr True"
    and no: "taskCompatibleWithPlatform programTask (platform ?esp) \<noteq> Inr True"
    by (simp_all add: programTask_def taskCompatibleWithPlatform_def array_includes_def)
  from qualified_tasks [OF parsed dist twoEnv_data str len uno example_tasks_in_catalog(1), of "[]"]
  obtain out where o: "getTasks twoEnvHost ''/project'' [] = (Inr out, [])"
    "count_list out (envTaskOf twoEnvHost ''uno'' programTask) = 1"
    "definition_args (envTaskOf twoEnvHost ''uno'' programTask) =
       args programTask @ [''--environment'', ''uno'']"
    "task_name (envTaskOf twoEnvHost ''uno'' programTask) =
       name programTask @ '' ('' @ ''uno'' @ '')''"
    using yes by auto
  from qualified_tasks [OF parsed dist twoEnv_data str len esp example_tasks_in_catalog(1), of "[]"]
  obtain out' where o': "getTasks twoEnvHost ''/project'' [] = (Inr out', [])"
    "count_list out' (envTaskOf twoEnvHost ''esp'' programTask) = 0"
    using no by auto
  from o(1) o'(1) twoEnv_tasks
  have "out = spec_generate twoEnvHost twoEnvConf" "out' = spec_generate twoEnvHost twoEnvConf"
    by simp_all
  with o o' show ?thesis
    by (simp add: programTask_def)
qed

text \<open>
  The claim as first stated promises the suffix for every environment, and a task for every
  compatible pair of every parsed configuration. With the sections \<^verbatim>\<open>[env:]\<close> and
  \<^verbatim>\<open>[env:b]\<close>, both on atmelavr, the Build task of the environment with the empty name is
  emitted once, with the arguments \<^verbatim>\<open>run --environment\<close> and the empty name, and its display
  name is \<^verbatim>\<open>Build\<close>, without a suffix. With \<^verbatim>\<open>[env:a]\<close> on atmelavr and \<^verbatim>\<open>[env:b]\<close>
  holding the bare line \<^verbatim>\<open>platform\<close>, two environments are declared and \<^verbatim>\<open>getTasks\<close> ends
  with a \<^verbatim>\<open>TypeError\<close>: no task is emitted for any pair.
\<close>

theorem qualified_name_counterexample:
  "readProjectConf emptyNameHost ''/project'' = Inr emptyNameConf
   \<and> collectProjectData emptyNameConf =
       Inr [\<lparr>env = [], platform = JStr ''atmelavr''\<rparr>, \<lparr>env = ''b'', platform = JStr ''atmelavr''\<rparr>]
   \<and> buildTask \<in> set baseTasks
   \<and> taskCompatibleWithPlatform buildTask (JStr ''atmelavr'') = Inr True
   \<and> getTasks emptyNameHost ''/project'' [] = (Inr (spec_generate emptyNameHost emptyNameConf), [])
   \<and> count_list (spec_generate emptyNameHost emptyNameConf) (envTaskOf emptyNameHost [] buildTask) = 1
   \<and> definition_args (envTaskOf emptyNameHost [] buildTask) = [''run'', ''--environment'', []]
   \<and> task_name (envTaskOf emptyNameHost [] buildTask) = ''Build''
   \<and> task_name (envTaskOf emptyNameHost [] buildTask) \<noteq> name buildTask @ '' ('' @ [] @ '')''
   \<and> readProjectConf bareSecondHost ''/project'' = Inr bareSecondConf
   \<and> collectProjectData bareSecondConf =
       Inr [\<lparr>env = ''a'', platform = JStr ''atmelavr''\<rparr>, \<lparr>env = ''b'', platform = JBool True\<rparr>]
   \<and> getTasks bareSecondHost ''/project'' [] = (Inl TypeError, [])"
proof -
  have parsed: "readProjectConf emptyNameHost ''/project'' = Inr emptyNameConf"
    by (simp add: emptyNameHost_def parsed_example)
  have b: "buildTask \<in> set baseTasks" by (rule example_tasks_in_catalog)
  have compat: "taskCompatibleWithPlatform buildTask (JStr ''atmelavr'') = Inr True"
    by (simp add: taskCompatibleWithPlatform_def buildTask_def array_includes_def)
  have typed: "wellTyped emptyNameConf" and envs: "spec_environments emptyNameConf =
      [\<lparr>env = [], platform = JStr ''atmelavr''\<rparr>, \<lparr>env = ''b'', platform = JStr ''atmelavr''\<rparr>]"
    using wellTyped_collected [OF emptyName_data] by simp_all
  have res: "getTasks emptyNameHost ''/project'' [] =
      (Inr (spec_generate emptyNameHost emptyNameConf), [])"
    using parsed typed by (rule getTasks_wellTyped)
  have cnt: "count_list (spec_generate emptyNameHost emptyNameConf)
      (envTaskOf emptyNameHost [] buildTask) = 1"
    by (simp add: spec_count_env [OF b] envs) (simp add: spec_compatible_def buildTask_def)
  have nm: "task_name (envTaskOf emptyNameHost [] buildTask) = ''Build''"
    using task_name_envTaskOf [OF b, of emptyNameHost "[]"] by (simp add: buildTask_def)
  have parsed2: "readProjectConf bareSecondHost ''/project'' = Inr bareSecondConf"
    by (simp add: bareSecondHost_def parsed_example)
  have pd2: "collectProjectData bareSecondConf =
       Inr [\<lparr>env = ''a'', platform = JStr ''atmelavr''\<rparr>, \<lparr>env = ''b'', platform = JBool True\<rparr>]"
    by (simp add: collectProjectData_def bareSecondConf_def pushProjectEnv_def startsWith_def
        ENV_NAME_PREFIX_def)
  have "generate bareSecondHost bareSecondConf = Inl TypeError"
    by (simp add: generate_def pd2 baseTasks_def pushBaseTask_def pushEnvTasks_def
        pushEnvTask_def taskCompatibleWithPlatform_def array_includes_def startsWith_def)
  then have res2: "getTasks bareSecondHost ''/project'' [] = (Inl TypeError, [])"
    using parsed2 by (simp add: getTasks_parsed)
  show ?thesis
    using parsed b compat res cnt nm parsed2 pd2 res2
    by (simp add: emptyName_data buildTask_def)
qed

text \<open>
  Claim C6. When reading the configuration file fails, or the file is read and parsing its
  content throws, \<^verbatim>\<open>getTasks\<close> returns the empty list and shows exactly one more error
  message, the one naming the project directory. The exception ends in the \<^verbatim>\<open>catch\<close>:
  the result is a list, not an exception, and no task is emitted.
\<close>

theorem config_failure_empty_list:
  assumes "readFile h (path_join h projectDir ''platformio.ini'') = Inl err \<or>
           (readFile h (path_join h projectDir ''platformio.ini'') = Inr content \<and>
            ini_parse h content = Inl err)"
  shows "getTasks h projectDir shown = (Inr [], shown @ [parseErrorMessage projectDir]) \<and>
         fst (getTasks h projectDir shown) = Inr [] \<and>
         length (snd (getTasks h projectDir shown)) = length shown + 1"
proof -
  from assms have "readProjectConf h projectDir = Inl err"
    by (auto simp: readProjectConf_def)
  then show ?thesis by (simp add: getTasks_failed)
qed

theorem config_failure_empty_list_witness:
  "getTasks unreadableHost ''/project'' [] = (Inr [], [parseErrorMessage ''/project''])
   \<and> getTasks unparseableHost ''/project'' [] = (Inr [], [parseErrorMessage ''/project''])
   \<and> readFile unparseableHost (path_join unparseableHost ''/project'' ''platformio.ini'')
       = Inr ''[env:uno''"
proof -
  have 1: "readFile unreadableHost (path_join unreadableHost ''/project'' ''platformio.ini'')
      = Inl (Error ''ENOENT'')"
    by (simp add: unreadableHost_def exampleHost_def)
  have 2: "readFile unparseableHost (path_join unparseableHost ''/project'' ''platformio.ini'')
      = Inr ''[env:uno'' \<and> ini_parse unparseableHost ''[env:uno'' = Inl (Error ''syntax'')"
    by (simp add: unparseableHost_def exampleHost_def)
  from config_failure_empty_list [of unreadableHost "''/project''" "Error ''ENOENT''" _ "[]"] 1
    config_failure_empty_list [of unparseableHost "''/project''" "Error ''syntax''"
      "''[env:uno''" "[]"] 2
  show ?thesis by simp
qed

subsection \<open>Resolving the executable\<close>

text \<open>
  Claim C9 says the search returns the join of the first directory that holds the
  candidate. The \<^verbatim>\<open>return\<close> in the callback of \<^verbatim>\<open>forEach\<close> does not end the loop: the
  search goes on, with the path found so far as the candidate. On the Windows host with
  the search path \<^verbatim>\<open>bin;tools\<close>, \<^verbatim>\<open>bin\<close> is the only directory that holds
  \<^verbatim>\<open>platformio.exe\<close>, and the command resolved is the file in \<^verbatim>\<open>tools/bin\<close>.
\<close>

theorem path_search_continues_after_match:
  "IS_WINDOWS windowsHost
   \<and> PATH_split windowsHost = [''bin'', ''tools'']
   \<and> isFileSync windowsHost (path_join windowsHost ''bin'' ''platformio.exe'')
   \<and> \<not> isFileSync windowsHost (path_join windowsHost ''tools'' ''platformio.exe'')
   \<and> resolvePioCmd windowsHost = ''tools'' @ sep @ ''bin'' @ sep @ ''platformio.exe''
   \<and> resolvePioCmd windowsHost \<noteq> path_join windowsHost ''bin'' ''platformio.exe''"
  by (simp add: windowsHost_def resolvePioCmd_def sep_def)


section \<open>Refresh lifecycle\<close>

subsection \<open>Reachable states\<close>

lemma remove_all_subscriptions: "foldl (\<lambda>r s. remove1 s r) (xs @ ys) xs = ys"
  by (induction xs) simp_all

lemma dispose_consistent:
  "registered p = subscriptions p \<Longrightarrow>
     registered (dispose p) = [] \<and> subscriptions (dispose p) = []"
  using remove_all_subscriptions [of "subscriptions p" "[]"] by (simp add: dispose_def)

lemma dispose_fields [simp]:
  "timers (dispose p) = timers p" "refreshTimeout (dispose p) = refreshTimeout p"
  "refreshCount (dispose p) = refreshCount p" "clock (dispose p) = clock p"
  "watcherFails (dispose p) = watcherFails p" "nextTimer (dispose p) = nextTimer p"
  by (simp_all add: dispose_def)

lemma subscribe_fields [simp]:
  "timers (subscribe s p) = timers p" "refreshTimeout (subscribe s p) = refreshTimeout p"
  "refreshCount (subscribe s p) = refreshCount p" "clock (subscribe s p) = clock p"
  "watcherFails (subscribe s p) = watcherFails p" "nextTimer (subscribe s p) = nextTimer p"
  "registered (subscribe s p) = registered p @ [s]"
  "subscriptions (subscribe s p) = subscriptions p @ [s]"
  by (simp_all add: subscribe_def)

lemma refresh_fields [simp]:
  "timers (refresh p) = timers p" "refreshTimeout (refresh p) = refreshTimeout p"
  "refreshCount (refresh p) = Suc (refreshCount p)" "clock (refresh p) = clock p"
  "watcherFails (refresh p) = watcherFails p" "nextTimer (refresh p) = nextTimer p"
  by (simp_all add: refresh_def addProjectConfigWatcher_def Let_def)

lemma refresh_registered:
  "registered p = subscriptions p \<Longrightarrow>
     registered (refresh p) = subscriptions (refresh p) \<and>
     TaskProvider \<in> set (registered (refresh p))"
  using dispose_consistent [of p]
  by (simp add: refresh_def addProjectConfigWatcher_def Let_def)

lemma refresh_consistent: "consistent p \<Longrightarrow> consistent (refresh p)"
  by (simp add: consistent_def refresh_registered)

lemma requestRefresh_fields [simp]:
  "registered (requestRefresh p) = registered p"
  "subscriptions (requestRefresh p) = subscriptions p"
  "refreshCount (requestRefresh p) = refreshCount p" "clock (requestRefresh p) = clock p"
  "watcherFails (requestRefresh p) = watcherFails p"
  "refreshTimeout (requestRefresh p) = Some (nextTimer p)"
  by (simp_all add: requestRefresh_def setTimeout_def clearTimeout_def Let_def
      split: option.splits)

lemma requestRefresh_timers:
  assumes "consistent p"
  shows "timers (requestRefresh p) = [(nextTimer p, clock p + AUTO_REFRESH_DELAY)]"
proof (cases "refreshTimeout p")
  case None
  with assms have "timers p = []"
    by (cases "timers p") (auto simp: consistent_def)
  with None show ?thesis
    by (simp add: requestRefresh_def setTimeout_def)
next
  case (Some handle)
  with assms have "filter (\<lambda>t. fst t \<noteq> handle) (timers p) = []"
    by (auto simp: consistent_def filter_empty_conv)
  with Some show ?thesis
    by (simp add: requestRefresh_def setTimeout_def clearTimeout_def)
qed

lemma requestRefresh_consistent: "consistent p \<Longrightarrow> consistent (requestRefresh p)"
  using requestRefresh_timers [of p] by (simp add: consistent_def)

lemma refresh_times_fields:
  "timers (foldl (\<lambda>q t. refresh q) p due) = timers p \<and>
   refreshTimeout (foldl (\<lambda>q t. refresh q) p due) = refreshTimeout p \<and>
   clock (foldl (\<lambda>q t. refresh q) p due) = clock p \<and>
   refreshCount (foldl (\<lambda>q t. refresh q) p due) = refreshCount p + length due"
  by (induction due arbitrary: p) simp_all

lemma refresh_times_consistent:
  "consistent p \<Longrightarrow> consistent (foldl (\<lambda>q t. refresh q) p due)"
  by (induction due arbitrary: p) (simp_all add: refresh_consistent)

lemma elapse_consistent: "consistent p \<Longrightarrow> consistent (elapse d p)"
  unfolding elapse_def Let_def
  by (rule refresh_times_consistent) (simp add: consistent_def)

lemma elapse_fields:
  "timers (elapse d p) = filter (\<lambda>t. \<not> snd t \<le> clock p + d) (timers p)"
  "refreshTimeout (elapse d p) = refreshTimeout p"
  "clock (elapse d p) = clock p + d"
  "refreshCount (elapse d p) =
     refreshCount p + length (filter (\<lambda>t. snd t \<le> clock p + d) (timers p))"
  by (simp_all add: elapse_def Let_def refresh_times_fields)

lemma step_consistent: "consistent p \<Longrightarrow> consistent (step e p)"
proof (cases e)
  case ConfigDeleted
  assume "consistent p"
  then show ?thesis
    using ConfigDeleted dispose_consistent [of p] by (simp add: consistent_def)
qed (simp_all add: requestRefresh_consistent elapse_consistent)

lemma run_consistent: "consistent p \<Longrightarrow> consistent (run es p)"
  by (induction es arbitrary: p) (simp_all add: step_consistent)

lemma initialFields_consistent: "consistent (initialFields fails now)"
  by (simp add: consistent_def initialFields_def)

lemma newProvider_consistent: "consistent (newProvider fails now)"
  unfolding newProvider_def
  by (rule requestRefresh_consistent) (rule initialFields_consistent)

lemma reachable_consistent: "consistent (run es (newProvider fails now))"
  by (simp add: run_consistent newProvider_consistent)

lemma burst_pending:
  assumes "consistent p" and "\<forall>g \<in> set gaps. g < AUTO_REFRESH_DELAY"
  shows "consistent (burst gaps p) \<and> refreshCount (burst gaps p) = refreshCount p \<and>
         (\<exists>handle. timers (burst gaps p) =
            [(handle, clock (burst gaps p) + AUTO_REFRESH_DELAY)])"
  using assms
proof (induction gaps arbitrary: p)
  case Nil
  then show ?case
    by (simp add: requestRefresh_consistent requestRefresh_timers)
next
  case (Cons g gaps)
  let ?q = "elapse g (requestRefresh p)"
  from Cons.prems have g: "g < AUTO_REFRESH_DELAY" by simp
  have "consistent ?q"
    using Cons.prems(1) by (simp add: requestRefresh_consistent elapse_consistent)
  moreover have "refreshCount ?q = refreshCount p"
    using g by (simp add: elapse_fields requestRefresh_timers [OF Cons.prems(1)])
  ultimately show ?case
    using Cons.IH [of ?q] Cons.prems(2) by simp
qed

lemma elapse_fires_pending:
  assumes "timers q = [(handle, clock q + AUTO_REFRESH_DELAY)]" and "AUTO_REFRESH_DELAY \<le> d"
  shows "refreshCount (elapse d q) = refreshCount q + 1 \<and> timers (elapse d q) = []"
  using assms by (simp add: elapse_fields)

lemma sum_list_bound: "sum_list gaps < (n::nat) \<Longrightarrow> \<forall>g \<in> set gaps. g < n"
  by (induction gaps) auto

lemma idle_forever:
  "registered p = [] \<Longrightarrow> timers p = [] \<Longrightarrow>
     registered (run es p) = [] \<and> timers (run es p) = [] \<and>
     refreshCount (run es p) = refreshCount p"
proof (induction es arbitrary: p)
  case Nil
  then show ?case by simp
next
  case (Cons e es)
  have "registered (step e p) = [] \<and> timers (step e p) = [] \<and>
        refreshCount (step e p) = refreshCount p"
    using Cons.prems by (cases e) (simp_all add: elapse_def)
  with Cons.IH [of "step e p"] show ?case by simp
qed

lemma started: "run [Elapse 1000] (newProvider False 0) =
  \<lparr> subscriptions = [TaskProvider, FileSystemWatcher, OnDidCreate, OnDidChange, OnDidDelete],
    refreshTimeout = Some 1,
    registered = [TaskProvider, FileSystemWatcher, OnDidCreate, OnDidChange, OnDidDelete],
    timers = [], nextTimer = 2, clock = 1000, watcherFails = False, refreshCount = 1 \<rparr>"
  by (simp add: newProvider_def initialFields_def requestRefresh_def setTimeout_def elapse_def refresh_def
      dispose_def subscribe_def addProjectConfigWatcher_def AUTO_REFRESH_DELAY_def Let_def)

lemma burst_events_example:
  "burst [300, 300] (run [Elapse 1000] (newProvider False 0)) =
     run [Elapse 1000, ConfigChanged, Elapse 300, ConfigCreated, Elapse 300, ConfigChanged]
       (newProvider False 0)"
  by (simp add: newProvider_def initialFields_def requestRefresh_def setTimeout_def clearTimeout_def elapse_def
      refresh_def dispose_def subscribe_def addProjectConfigWatcher_def AUTO_REFRESH_DELAY_def
      Let_def)

subsection \<open>Debounce and deletion\<close>

text \<open>
  Claim C8. Starting in the constructor (whose call of \<^verbatim>\<open>requestRefresh\<close> is then the first
  trigger) or in any state the constructor and the events lead to, \<open>N\<close> triggers
  (\<open>N\<close> is one more than the number of gaps) that all fall within one window of
  \<^verbatim>\<open>AUTO_REFRESH_DELAY\<close>, one second, cause no refresh while they arrive, leave one timeout
  pending, and cause exactly one refresh once the delay has passed after the last of them;
  a further trigger after that causes a second refresh once the delay has passed again.
\<close>

theorem debounce:
  assumes "p = initialFields fails now \<or> p = run es (newProvider fails now)"
    and "sum_list gaps < AUTO_REFRESH_DELAY"
    and "AUTO_REFRESH_DELAY \<le> d" and "AUTO_REFRESH_DELAY \<le> d'"
  shows "AUTO_REFRESH_DELAY = 1000 \<and>
         refreshCount (burst gaps p) = refreshCount p \<and>
         length (timers (burst gaps p)) = 1 \<and>
         refreshCount (elapse d (burst gaps p)) = refreshCount p + 1 \<and>
         refreshCount (elapse d' (requestRefresh (elapse d (burst gaps p)))) =
           refreshCount p + 2"
proof -
  have p: "consistent p"
    using assms(1) by (auto simp: reachable_consistent initialFields_consistent)
  from burst_pending [OF p sum_list_bound [OF assms(2)]]
  obtain handle where b: "consistent (burst gaps p)"
      "refreshCount (burst gaps p) = refreshCount p"
      "timers (burst gaps p) = [(handle, clock (burst gaps p) + AUTO_REFRESH_DELAY)]"
    by blast
  let ?q = "elapse d (burst gaps p)"
  from elapse_fires_pending [OF b(3) assms(3)]
  have q: "refreshCount ?q = refreshCount p + 1" "timers ?q = []"
    using b(2) by simp_all
  have cq: "consistent ?q"
    using b(1) by (rule elapse_consistent)
  have "timers (requestRefresh ?q) =
          [(nextTimer ?q, clock (requestRefresh ?q) + AUTO_REFRESH_DELAY)]"
    using requestRefresh_timers [OF cq] by simp
  from elapse_fires_pending [OF this assms(4)]
  have "refreshCount (elapse d' (requestRefresh ?q)) = refreshCount p + 2"
    using q(1) by simp
  with b q show ?thesis
    by (simp add: AUTO_REFRESH_DELAY_def)
qed

theorem debounce_witness:
  "refreshCount (run [Elapse 1000] (newProvider False 0)) = 1
   \<and> refreshCount (burst [300, 300] (run [Elapse 1000] (newProvider False 0))) = 1
   \<and> refreshCount (elapse 1000 (burst [300, 300] (run [Elapse 1000] (newProvider False 0)))) = 2
   \<and> refreshCount (elapse 1000 (requestRefresh
        (elapse 1000 (burst [300, 300] (run [Elapse 1000] (newProvider False 0)))))) = 3"
proof -
  let ?p = "run [Elapse 1000] (newProvider False 0)"
  have c: "refreshCount ?p = 1"
    by (simp only: started) simp
  have g: "sum_list [300, 300] < AUTO_REFRESH_DELAY"
    and d: "AUTO_REFRESH_DELAY \<le> 1000"
    by (simp_all add: AUTO_REFRESH_DELAY_def)
  have r: "?p = initialFields False 0 \<or> ?p = run [Elapse 1000] (newProvider False 0)"
    by (rule disjI2) (rule refl)
  note inst = debounce [where p = ?p and es = "[Elapse 1000]" and fails = False and now = 0
      and gaps = "[300, 300]" and d = 1000 and d' = 1000, OF r g d d]
  from inst have 1: "refreshCount (burst [300, 300] ?p) = refreshCount ?p"
    and 2: "refreshCount (elapse 1000 (burst [300, 300] ?p)) = refreshCount ?p + 1"
    and 3: "refreshCount (elapse 1000 (requestRefresh (elapse 1000 (burst [300, 300] ?p))))
              = refreshCount ?p + 2"
    by blast+
  from 1 2 3 show ?thesis
    unfolding c by simp
qed

text \<open>
  Claim C7, amended. When the deletion event reaches its handler, everything the provider
  registered (task provider, watcher, handlers) is released, and the handler neither sets nor
  clears a timeout and runs no refresh. If no timeout is pending at that moment, no refresh
  runs afterwards and nothing is registered again, whatever events follow.
\<close>

theorem config_deleted_releases:
  assumes "p = run es (newProvider fails now)"
    and "OnDidDelete \<in> set (registered p)"
  shows "registered (step ConfigDeleted p) = [] \<and>
         subscriptions (step ConfigDeleted p) = [] \<and>
         timers (step ConfigDeleted p) = timers p \<and>
         refreshTimeout (step ConfigDeleted p) = refreshTimeout p \<and>
         refreshCount (step ConfigDeleted p) = refreshCount p \<and>
         (timers p = [] \<longrightarrow>
            (\<forall>es'. refreshCount (run es' (step ConfigDeleted p)) = refreshCount p \<and>
                   registered (run es' (step ConfigDeleted p)) = []))"
proof -
  have "consistent p"
    using assms(1) by (simp add: reachable_consistent)
  then have d: "registered (dispose p) = []" "subscriptions (dispose p) = []"
    using dispose_consistent [of p] by (simp_all add: consistent_def)
  have s: "step ConfigDeleted p = dispose p"
    using assms(2) by simp
  show ?thesis
    unfolding s using d idle_forever [of "dispose p"] by simp
qed

theorem config_deleted_releases_witness:
  "OnDidDelete \<in> set (registered (run [Elapse 1000] (newProvider False 0)))
   \<and> timers (run [Elapse 1000] (newProvider False 0)) = []
   \<and> registered (step ConfigDeleted (run [Elapse 1000] (newProvider False 0))) = []
   \<and> refreshCount (run [Elapse 5000, ConfigChanged, Elapse 5000]
        (step ConfigDeleted (run [Elapse 1000] (newProvider False 0)))) = 1"
proof -
  let ?p = "run [Elapse 1000] (newProvider False 0)"
  have r: "OnDidDelete \<in> set (registered ?p)" and t: "timers ?p = []"
    and c: "refreshCount ?p = 1"
    by (simp_all only: started) simp_all
  note inst = config_deleted_releases [where p = ?p and es = "[Elapse 1000]"
      and fails = False and now = 0, OF refl r]
  from inst have a: "registered (step ConfigDeleted ?p) = []"
    by blast
  from inst t
  have "refreshCount (run [Elapse 5000, ConfigChanged, Elapse 5000] (step ConfigDeleted ?p))
          = refreshCount ?p"
    by blast
  with c
  have b: "refreshCount (run [Elapse 5000, ConfigChanged, Elapse 5000] (step ConfigDeleted ?p))
          = 1"
    by (simp only:)
  from r t a b show ?thesis by blast
qed

text \<open>
  The claim as first stated excludes any refresh after a deletion until a new trigger
  arrives. A timeout that is pending when the file is deleted still fires: after the first
  refresh, a change at 1000 ms and the deletion at 1500 ms, the refresh of the change runs
  at 2000 ms and registers the task provider again.
\<close>

theorem refresh_after_deletion_counterexample:
  "OnDidDelete \<in> set (registered (run [Elapse 1000, ConfigChanged, Elapse 500] (newProvider False 0)))
   \<and> registered (run [Elapse 1000, ConfigChanged, Elapse 500, ConfigDeleted] (newProvider False 0)) = []
   \<and> refreshCount (run [Elapse 1000, ConfigChanged, Elapse 500, ConfigDeleted] (newProvider False 0)) = 1
   \<and> refreshCount (run [Elapse 1000, ConfigChanged, Elapse 500, ConfigDeleted, Elapse 500]
        (newProvider False 0)) = 2
   \<and> TaskProvider \<in> set (registered
        (run [Elapse 1000, ConfigChanged, Elapse 500, ConfigDeleted, Elapse 500]
           (newProvider False 0)))"
  by (simp add: newProvider_def initialFields_def requestRefresh_def setTimeout_def clearTimeout_def elapse_def
      refresh_def dispose_def subscribe_def addProjectConfigWatcher_def AUTO_REFRESH_DELAY_def
      Let_def)

end
